theory Spec2Isabelle
  imports Main "HOL-Library.Char_ord" "HOL-Library.List_Lexorder" "HOL-Library.Product_Lexorder"
    "HOL-Library.AList" "HOL-Library.Sublist"
begin

section \<open>Python values used by the parser and the scheduler\<close>

text \<open>
  Python strings are sequences of code points. They are modelled as \<^typ>\<open>string\<close>, one
  \<^typ>\<open>char\<close> per code point, which covers the code points 0 to 255 (ASCII and Latin-1).
  The character classes below are the ones Python's \<open>str\<close> methods and the \<open>re\<close> module
  use for \<open>str\<close> patterns, cut down to that range. Exceptions are values of
  \<open>py_error\<close>; a function that may raise returns \<open>py_error + 'a\<close>.
\<close>

datatype py_error = ValueError | TypeError | OverflowError

datatype py_value = PyNone | PyInt int | PyStr string

definition chr_code :: "char \<Rightarrow> nat" where
  "chr_code c = of_char c"

definition is_digit :: "char \<Rightarrow> bool" where
  "is_digit c = (48 \<le> chr_code c \<and> chr_code c \<le> 57)"

definition is_space :: "char \<Rightarrow> bool" where
  "is_space c = (let n = chr_code c in
     (9 \<le> n \<and> n \<le> 13) \<or> (28 \<le> n \<and> n \<le> 32) \<or> n = 133 \<or> n = 160)"

definition is_ascii_upper :: "char \<Rightarrow> bool" where
  "is_ascii_upper c = (65 \<le> chr_code c \<and> chr_code c \<le> 90)"

definition is_ascii_lower :: "char \<Rightarrow> bool" where
  "is_ascii_lower c = (97 \<le> chr_code c \<and> chr_code c \<le> 122)"

definition is_word :: "char \<Rightarrow> bool" where
  "is_word c = (let n = chr_code c in
     is_digit c \<or> is_ascii_upper c \<or> is_ascii_lower c \<or> n = 95 \<or>
     n = 170 \<or> n = 178 \<or> n = 179 \<or> n = 181 \<or> n = 185 \<or> n = 186 \<or>
     (188 \<le> n \<and> n \<le> 190) \<or> (192 \<le> n \<and> n \<le> 214) \<or> (216 \<le> n \<and> n \<le> 246) \<or>
     248 \<le> n)"

definition lower_char :: "char \<Rightarrow> char" where
  "lower_char c = (let n = chr_code c in
     if is_ascii_upper c \<or> (192 \<le> n \<and> n \<le> 222 \<and> n \<noteq> 215) then char_of (n + 32) else c)"

definition py_lower :: "string \<Rightarrow> string" where
  "py_lower s = map lower_char s"

text \<open>
  \<open>str.upper\<close>: the sharp s becomes \<open>SS\<close>. The upper-case forms of the code points 181
  and 255 lie beyond code point 255; these two characters are left as they are.
\<close>

definition upper_char :: "char \<Rightarrow> string" where
  "upper_char c = (let n = chr_code c in
     if is_ascii_lower c \<or> (224 \<le> n \<and> n \<le> 254 \<and> n \<noteq> 247) then [char_of (n - 32)]
     else if n = 223 then ''SS'' else [c])"

definition py_upper :: "string \<Rightarrow> string" where
  "py_upper s = concat (map upper_char s)"

definition py_strip :: "string \<Rightarrow> string" where
  "py_strip s = rev (dropWhile is_space (rev (dropWhile is_space s)))"

definition digit_char :: "nat \<Rightarrow> char" where
  "digit_char n = char_of (48 + n)"

definition digit_val :: "char \<Rightarrow> nat" where
  "digit_val c = chr_code c - 48"

fun str_nat :: "nat \<Rightarrow> string" where
  "str_nat n = (if n < 10 then [digit_char n] else str_nat (n div 10) @ [digit_char (n mod 10)])"

declare str_nat.simps [simp del]

definition str_int :: "int \<Rightarrow> string" where
  "str_int i = (if i < 0 then CHR ''-'' # str_nat (nat (- i)) else str_nat (nat i))"

definition zfill :: "nat \<Rightarrow> string \<Rightarrow> string" where
  "zfill w s = replicate (w - length s) CHR ''0'' @ s"

text \<open>The format specification \<open>02d\<close>: at least two characters, the sign counted, zeros
  after the sign.\<close>

definition format_02d :: "int \<Rightarrow> string" where
  "format_02d i = (if i < 0 then CHR ''-'' # zfill 1 (str_nat (nat (- i))) else zfill 2 (str_nat (nat i)))"

fun nat_of_digits :: "nat \<Rightarrow> string \<Rightarrow> nat" where
  "nat_of_digits acc [] = acc"
| "nat_of_digits acc (c # cs) = nat_of_digits (acc * 10 + digit_val c) cs"

text \<open>
  \<open>int(x)\<close> for the values a preference can hold: an integer is returned as it is, a
  string is stripped and read as an optional sign and decimal digits (single underscores
  between digits allowed), \<open>None\<close> is a \<open>TypeError\<close>.
\<close>

fun int_digits :: "string \<Rightarrow> bool \<Rightarrow> nat \<Rightarrow> nat option" where
  "int_digits [] prev_digit acc = (if prev_digit then Some acc else None)"
| "int_digits (c # cs) prev_digit acc =
     (if is_digit c then int_digits cs True (acc * 10 + digit_val c)
      else if c = CHR ''_'' \<and> prev_digit then int_digits cs False acc
      else None)"

definition int_of_str :: "string \<Rightarrow> py_error + int" where
  "int_of_str s =
     (let t = py_strip s;
          (neg, body) = (case t of
             c # cs \<Rightarrow> if c = CHR ''-'' then (True, cs) else if c = CHR ''+'' then (False, cs)
                       else (False, t)
           | [] \<Rightarrow> (False, t))
      in case int_digits body False 0 of
           None \<Rightarrow> Inl ValueError
         | Some n \<Rightarrow> Inr (if neg then - int n else int n))"

fun py_int :: "py_value \<Rightarrow> py_error + int" where
  "py_int (PyInt i) = Inr i"
| "py_int (PyStr s) = int_of_str s"
| "py_int PyNone = Inl TypeError"

section \<open>Calendar dates and \<open>datetime\<close>\<close>

text \<open>
  A \<open>datetime\<close> holds a proleptic Gregorian date with a year from 1 to 9999 and a time of
  day. \<open>toordinal\<close>, \<open>weekday\<close>, subtraction and the addition of whole days follow the
  \<open>datetime\<close> module.
\<close>

record datetime =
  dt_year :: nat
  dt_month :: nat
  dt_day :: nat
  dt_hour :: nat
  dt_minute :: nat
  dt_second :: nat
  dt_microsecond :: nat

definition is_leap :: "nat \<Rightarrow> bool" where
  "is_leap y = (y mod 4 = 0 \<and> (y mod 100 \<noteq> 0 \<or> y mod 400 = 0))"

definition days_in_month :: "nat \<Rightarrow> nat \<Rightarrow> nat" where
  "days_in_month y m =
     (if m = 2 then (if is_leap y then 29 else 28)
      else if m = 4 \<or> m = 6 \<or> m = 9 \<or> m = 11 then 30 else 31)"

definition valid_date :: "nat \<Rightarrow> nat \<Rightarrow> nat \<Rightarrow> bool" where
  "valid_date y m d = (1 \<le> y \<and> y \<le> 9999 \<and> 1 \<le> m \<and> m \<le> 12 \<and> 1 \<le> d \<and> d \<le> days_in_month y m)"

definition valid_datetime :: "datetime \<Rightarrow> bool" where
  "valid_datetime t = (valid_date (dt_year t) (dt_month t) (dt_day t) \<and> dt_hour t < 24 \<and>
     dt_minute t < 60 \<and> dt_second t < 60 \<and> dt_microsecond t < 1000000)"

definition midnight :: "nat \<Rightarrow> nat \<Rightarrow> nat \<Rightarrow> datetime" where
  "midnight y m d = \<lparr>dt_year = y, dt_month = m, dt_day = d, dt_hour = 0, dt_minute = 0,
     dt_second = 0, dt_microsecond = 0\<rparr>"

definition days_before_year :: "nat \<Rightarrow> nat" where
  "days_before_year y = (let p = y - 1 in p * 365 + p div 4 - p div 100 + p div 400)"

definition days_before_month :: "nat \<Rightarrow> nat \<Rightarrow> nat" where
  "days_before_month y m = sum_list (map (days_in_month y) [1..<m])"

definition toordinal :: "datetime \<Rightarrow> nat" where
  "toordinal t = days_before_year (dt_year t) + days_before_month (dt_year t) (dt_month t) + dt_day t"

definition weekday :: "datetime \<Rightarrow> nat" where
  "weekday t = (toordinal t + 6) mod 7"

definition to_microseconds :: "datetime \<Rightarrow> int" where
  "to_microseconds t =
     (((int (toordinal t) * 24 + int (dt_hour t)) * 60 + int (dt_minute t)) * 60 + int (dt_second t))
       * 1000000 + int (dt_microsecond t)"

text \<open>\<open>(a - b).days\<close>: a \<open>timedelta\<close> is normalised with a non-negative time part, so its
  days are the floor of the difference.\<close>

definition timedelta_days :: "datetime \<Rightarrow> datetime \<Rightarrow> int" where
  "timedelta_days a b = (to_microseconds a - to_microseconds b) div 86400000000"

text \<open>Two datetimes are compared field by field, from the year down to the microsecond.\<close>

definition dt_key :: "datetime \<Rightarrow> nat \<times> nat \<times> nat \<times> nat \<times> nat \<times> nat \<times> nat" where
  "dt_key t = (dt_year t, dt_month t, dt_day t, dt_hour t, dt_minute t, dt_second t, dt_microsecond t)"

definition dt_less :: "datetime \<Rightarrow> datetime \<Rightarrow> bool" where
  "dt_less a b = (dt_key a < dt_key b)"

definition next_day :: "datetime \<Rightarrow> py_error + datetime" where
  "next_day t =
     (if dt_day t < days_in_month (dt_year t) (dt_month t) then Inr (t\<lparr>dt_day := dt_day t + 1\<rparr>)
      else if dt_month t < 12 then Inr (t\<lparr>dt_month := dt_month t + 1, dt_day := 1\<rparr>)
      else if dt_year t < 9999 then Inr (t\<lparr>dt_year := dt_year t + 1, dt_month := 1, dt_day := 1\<rparr>)
      else Inl OverflowError)"

text \<open>\<open>t + timedelta(days=i)\<close> for \<open>i \<ge> 0\<close>: the date moves on by \<open>i\<close> days, the time of
  day stays; a date after 9999-12-31 is an \<open>OverflowError\<close>.\<close>

fun add_days :: "datetime \<Rightarrow> nat \<Rightarrow> py_error + datetime" where
  "add_days t 0 = Inr t"
| "add_days t (Suc i) = (case add_days t i of Inl e \<Rightarrow> Inl e | Inr u \<Rightarrow> next_day u)"

text \<open>\<open>t.strftime('%Y-%m-%d')\<close>: the month and the day are written with two digits; the
  year is written by the C library, which on Linux does not pad it, so that the year 999
  is written \<open>999\<close>.\<close>

definition strftime_ymd :: "datetime \<Rightarrow> string" where
  "strftime_ymd t = str_nat (dt_year t) @ ''-'' @ zfill 2 (str_nat (dt_month t)) @ ''-'' @
     zfill 2 (str_nat (dt_day t))"

section \<open>\<open>datetime.strptime\<close>\<close>

text \<open>
  \<open>strptime\<close> turns the format into a regular expression (a directive becomes a group
  of alternatives, a run of whitespace becomes \<open>\s+\<close>, any other character stands for
  itself), matches it at the start of the data case-insensitively, takes the first match
  in the order in which a backtracking matcher finds them, and raises \<open>ValueError\<close> when
  there is no match, when the match ends before the data does, or when the fields do not
  make a date. The matcher below lists all matches in that order. Only the directives
  that the formats of parser.py use are covered (\<open>%m\<close>, \<open>%d\<close>, \<open>%Y\<close>, \<open>%B\<close>, \<open>%b\<close> and
  \<open>%%\<close>), with the English month names of the C locale; none of these formats repeats
  a directive.
\<close>

datatype directive = Dir_m | Dir_d | Dir_Y | Dir_B | Dir_b | Lit char | Spaces

fun directive_of :: "char \<Rightarrow> directive option" where
  "directive_of c =
     (if c = CHR ''m'' then Some Dir_m else if c = CHR ''d'' then Some Dir_d
      else if c = CHR ''Y'' then Some Dir_Y else if c = CHR ''B'' then Some Dir_B
      else if c = CHR ''b'' then Some Dir_b else if c = CHR ''%'' then Some (Lit CHR ''%'')
      else None)"

function compile_format :: "string \<Rightarrow> directive list option" where
  "compile_format [] = Some []"
| "compile_format (c # cs) =
     (if c = CHR ''%'' then
        (case cs of
           [] \<Rightarrow> None
         | d # ds \<Rightarrow>
             (case directive_of d of
                None \<Rightarrow> None
              | Some x \<Rightarrow> map_option ((#) x) (compile_format ds)))
      else if is_space c then map_option ((#) Spaces) (compile_format (dropWhile is_space cs))
      else map_option ((#) (Lit c)) (compile_format cs))"
  by pat_completeness auto
termination
  by (relation "measure length") (auto intro: le_imp_less_Suc length_dropWhile_le)

definition in_range :: "char \<Rightarrow> char \<Rightarrow> char \<Rightarrow> bool" where
  "in_range lo hi c = (chr_code lo \<le> chr_code c \<and> chr_code c \<le> chr_code hi)"

text \<open>One alternative made of single-character classes: the matched text and the rest.\<close>

fun match_classes :: "(char \<Rightarrow> bool) list \<Rightarrow> string \<Rightarrow> (string \<times> string) list" where
  "match_classes [] s = [([], s)]"
| "match_classes (p # ps) [] = []"
| "match_classes (p # ps) (c # cs) =
     (if p c then map (\<lambda>(m, r). (c # m, r)) (match_classes ps cs) else [])"

definition number_of :: "string \<times> string \<Rightarrow> nat \<times> string" where
  "number_of mr = (nat_of_digits 0 (filter is_digit (fst mr)), snd mr)"

text \<open>\<open>%m\<close> is \<open>1[0-2]|0[1-9]|[1-9]\<close>, \<open>%d\<close> is \<open>3[01]|[12]\d|0[1-9]|[1-9]| [1-9]\<close>, \<open>%Y\<close> is
  four digits.\<close>

definition match_m :: "string \<Rightarrow> (nat \<times> string) list" where
  "match_m s = map number_of
     (match_classes [(=) CHR ''1'', in_range CHR ''0'' CHR ''2''] s @
      match_classes [(=) CHR ''0'', in_range CHR ''1'' CHR ''9''] s @
      match_classes [in_range CHR ''1'' CHR ''9''] s)"

definition match_d :: "string \<Rightarrow> (nat \<times> string) list" where
  "match_d s = map number_of
     (match_classes [(=) CHR ''3'', in_range CHR ''0'' CHR ''1''] s @
      match_classes [in_range CHR ''1'' CHR ''2'', is_digit] s @
      match_classes [(=) CHR ''0'', in_range CHR ''1'' CHR ''9''] s @
      match_classes [in_range CHR ''1'' CHR ''9''] s @
      match_classes [(=) CHR '' '', in_range CHR ''1'' CHR ''9''] s)"

definition match_Y :: "string \<Rightarrow> (nat \<times> string) list" where
  "match_Y s = map number_of (match_classes [is_digit, is_digit, is_digit, is_digit] s)"

definition month_names :: "string list" where
  "month_names = [''january'', ''february'', ''march'', ''april'', ''may'', ''june'', ''july'',
     ''august'', ''september'', ''october'', ''november'', ''december'']"

definition month_abbrs :: "string list" where
  "month_abbrs = map (take 3) month_names"

text \<open>The alternatives of a name directive are the names, longest first (a stable sort by
  decreasing length); the value of a match is the place of the name in the year.\<close>

definition by_length_desc :: "string list \<Rightarrow> string list" where
  "by_length_desc names = rev (sort_key length (rev names))"

fun index_of :: "'a \<Rightarrow> 'a list \<Rightarrow> nat" where
  "index_of x [] = 0"
| "index_of x (y # ys) = (if x = y then 0 else Suc (index_of x ys))"

definition match_literal :: "string \<Rightarrow> string \<Rightarrow> (string \<times> string) list" where
  "match_literal name s = match_classes (map (\<lambda>c x. lower_char x = lower_char c) name) s"

definition match_name :: "string list \<Rightarrow> string \<Rightarrow> (nat \<times> string) list" where
  "match_name names s =
     concat (map (\<lambda>name. map (\<lambda>(m, r). (Suc (index_of (py_lower m) names), r)) (match_literal name s))
       (by_length_desc names))"

text \<open>\<open>\s+\<close> is greedy: the longest run first, then shorter ones, never an empty one.\<close>

definition match_spaces :: "string \<Rightarrow> string list" where
  "match_spaces s = map (\<lambda>k. drop k s) (rev [1..<Suc (length (takeWhile is_space s))])"

type_synonym date_fields = "nat option \<times> nat option \<times> nat option"

fun match_directives :: "directive list \<Rightarrow> string \<Rightarrow> date_fields \<Rightarrow> (date_fields \<times> string) list" where
  "match_directives [] s f = [(f, s)]"
| "match_directives (Dir_Y # ds) s (y, m, d) =
     concat (map (\<lambda>(v, r). match_directives ds r (Some v, m, d)) (match_Y s))"
| "match_directives (Dir_m # ds) s (y, m, d) =
     concat (map (\<lambda>(v, r). match_directives ds r (y, Some v, d)) (match_m s))"
| "match_directives (Dir_B # ds) s (y, m, d) =
     concat (map (\<lambda>(v, r). match_directives ds r (y, Some v, d)) (match_name month_names s))"
| "match_directives (Dir_b # ds) s (y, m, d) =
     concat (map (\<lambda>(v, r). match_directives ds r (y, Some v, d)) (match_name month_abbrs s))"
| "match_directives (Dir_d # ds) s (y, m, d) =
     concat (map (\<lambda>(v, r). match_directives ds r (y, m, Some v)) (match_d s))"
| "match_directives (Lit c # ds) s f =
     concat (map (\<lambda>(v, r). match_directives ds r f) (match_literal [c] s))"
| "match_directives (Spaces # ds) s f =
     concat (map (\<lambda>r. match_directives ds r f) (match_spaces s))"

text \<open>A field without a directive has the default of \<open>strptime\<close> (1900, 1, 1); every
  format used here holds all three fields.\<close>

definition strptime :: "string \<Rightarrow> string \<Rightarrow> py_error + datetime" where
  "strptime data_string format =
     (case compile_format format of
        None \<Rightarrow> Inl ValueError
      | Some ds \<Rightarrow>
          (case match_directives ds data_string (None, None, None) of
             [] \<Rightarrow> Inl ValueError
           | ((y, m, d), rest) # _ \<Rightarrow>
               if rest \<noteq> [] then Inl ValueError
               else
                 (let year = (case y of None \<Rightarrow> 1900 | Some v \<Rightarrow> v);
                      month = (case m of None \<Rightarrow> 1 | Some v \<Rightarrow> v);
                      day = (case d of None \<Rightarrow> 1 | Some v \<Rightarrow> v)
                  in if valid_date year month day then Inr (midnight year month day)
                     else Inl ValueError)))"

section \<open>scheduler.py\<close>

text \<open>
  An activity is the dictionary the scheduler builds; a key that a dictionary literal does
  not set is \<open>None\<close> here. The pictographs of the labels lie beyond code point 255 and are
  carried as their UTF-8 bytes; no operation looks into a label.
\<close>

record activity =
  a_time :: string
  a_activity :: string
  a_type :: string
  a_duration :: "int option"
  a_description :: "string option"
  a_course :: "string option"
  a_priority :: "string option"

definition emoji :: "nat list \<Rightarrow> string" where
  "emoji bs = map char_of bs"

definition emoji_sunrise :: string where "emoji_sunrise = emoji [240, 159, 140, 133]"
definition emoji_cooking :: string where "emoji_cooking = emoji [240, 159, 141, 179]"
definition emoji_salad :: string where "emoji_salad = emoji [240, 159, 165, 151]"
definition emoji_plate :: string where "emoji_plate = emoji [240, 159, 141, 189, 239, 184, 143]"
definition emoji_biceps :: string where "emoji_biceps = emoji [240, 159, 146, 170]"
definition emoji_party :: string where "emoji_party = emoji [240, 159, 142, 137]"
definition emoji_books :: string where "emoji_books = emoji [240, 159, 147, 154]"
definition emoji_memo :: string where "emoji_memo = emoji [240, 159, 147, 157]"
definition emoji_page :: string where "emoji_page = emoji [240, 159, 147, 132]"
definition emoji_rocket :: string where "emoji_rocket = emoji [240, 159, 154, 128]"
definition emoji_question :: string where "emoji_question = emoji [226, 157, 147]"
definition emoji_microphone :: string where "emoji_microphone = emoji [240, 159, 142, 164]"
definition emoji_warning :: string where "emoji_warning = emoji [226, 154, 160, 239, 184, 143]"
definition emoji_open_book :: string where "emoji_open_book = emoji [240, 159, 147, 150]"

definition times_sign :: string where "times_sign = [char_of (215::nat)]"

definition mk_activity :: "string \<Rightarrow> string \<Rightarrow> string \<Rightarrow> int \<Rightarrow> activity" where
  "mk_activity t l ty d = \<lparr>a_time = t, a_activity = l, a_type = ty, a_duration = Some d,
     a_description = None, a_course = None, a_priority = None\<rparr>"

definition mk_study :: "string \<Rightarrow> string \<Rightarrow> int \<Rightarrow> string \<Rightarrow> activity" where
  "mk_study t l d desc = (mk_activity t l ''study'' d)\<lparr>a_description := Some desc\<rparr>"

definition generate_study_sessions :: "int \<Rightarrow> int \<Rightarrow> py_value \<Rightarrow> nat \<Rightarrow> activity list" where
  "generate_study_sessions wakeup sleep study_style day_of_week =
     (let sessions = [];
          available_hours = sleep - wakeup - 4
      in if study_style = PyStr ''pomodoro'' then
           (let morning_start = wakeup + 2;
                afternoon_start = 14;
                evening_start = 19;
                sessions = sessions @
                  [mk_study (format_02d morning_start @ '':00'')
                     (emoji_books @ '' Morning Study Block (4 Pomodoros)'') 120
                     (''25min study + 5min break '' @ times_sign @ '' 4''),
                   mk_study (format_02d afternoon_start @ '':00'')
                     (emoji_books @ '' Afternoon Study Block (4 Pomodoros)'') 120
                     (''25min study + 5min break '' @ times_sign @ '' 4'')]
            in if day_of_week < 5 then
                 sessions @
                   [mk_study (format_02d evening_start @ '':00'')
                      (emoji_books @ '' Evening Study Block (2 Pomodoros)'') 60
                      (''25min study + 5min break '' @ times_sign @ '' 2'')]
               else sessions)
         else if study_style = PyStr ''focused'' then
           sessions @
             [mk_study (format_02d (wakeup + 2) @ '':00'')
                (emoji_books @ '' Deep Focus Session 1'') 180 ''Extended focused study session'',
              mk_study ''14:00''
                (emoji_books @ '' Deep Focus Session 2'') 150 ''Extended focused study session'']
         else
           sessions @
             [mk_study (format_02d (wakeup + 2) @ '':00'')
                (emoji_books @ '' Morning Study Session'') 90 ''Flexible study session'',
              mk_study ''13:00''
                (emoji_books @ '' Afternoon Study Session'') 60 ''Flexible study session'',
              mk_study ''16:00''
                (emoji_books @ '' Late Afternoon Study'') 90 ''Flexible study session'',
              mk_study ''19:30''
                (emoji_books @ '' Evening Review'') 45 ''Review and light study''])"

text \<open>A deadline is a dictionary with text values; a key that is absent is \<open>None\<close>.\<close>

record deadline =
  d_date :: "string option"
  d_time :: "string option"
  d_type :: "string option"
  d_title :: "string option"
  d_course_code :: "string option"
  d_description :: "string option"

definition dict_get :: "'a option \<Rightarrow> 'a \<Rightarrow> 'a" where
  "dict_get v dflt = (case v of None \<Rightarrow> dflt | Some x \<Rightarrow> x)"

definition type_emojis :: "(string \<times> string) list" where
  "type_emojis = [(''exam'', emoji_memo), (''assignment'', emoji_page), (''project'', emoji_rocket),
     (''quiz'', emoji_question), (''presentation'', emoji_microphone)]"

definition deadline_activity :: "deadline \<Rightarrow> activity" where
  "deadline_activity dl =
     (let emoji = dict_get (map_of type_emojis (dict_get (d_type dl) [])) emoji_warning
      in \<lparr>a_time = dict_get (d_time dl) ''23:59'',
          a_activity = emoji @ '' '' @ py_upper (dict_get (d_type dl) []) @ '': '' @
            dict_get (d_title dl) [],
          a_type = ''deadline'',
          a_duration = None,
          a_description = Some (dict_get (d_description dl) []),
          a_course = Some (dict_get (d_course_code dl) []),
          a_priority = Some ''high''\<rparr>)"

fun get_deadlines_for_date :: "datetime \<Rightarrow> deadline list \<Rightarrow> activity list" where
  "get_deadlines_for_date date [] = []"
| "get_deadlines_for_date date (dl # deadlines) =
     (let date_str = strftime_ymd date
      in if d_date dl = Some date_str
         then deadline_activity dl # get_deadlines_for_date date deadlines
         else get_deadlines_for_date date deadlines)"

definition review_activity :: "deadline \<Rightarrow> int \<Rightarrow> activity" where
  "review_activity dl days_until =
     (let intensity = (if days_until = 1 then ''Intensive'' else if days_until = 3 then ''Focused''
                       else ''Initial'')
      in \<lparr>a_time = ''20:00'',
          a_activity = emoji_open_book @ '' '' @ intensity @ '' Review: '' @ dict_get (d_title dl) [],
          a_type = ''review'',
          a_duration = Some (if days_until = 1 then 60 else 45),
          a_description = None,
          a_course = Some (dict_get (d_course_code dl) []),
          a_priority = Some (if days_until \<le> 3 then ''high'' else ''medium'')\<rparr>)"

fun generate_review_sessions :: "datetime \<Rightarrow> deadline list \<Rightarrow> py_error + activity list" where
  "generate_review_sessions date [] = Inr []"
| "generate_review_sessions date (dl # deadlines) =
     (case strptime (dict_get (d_date dl) []) ''%Y-%m-%d'' of
        Inl e \<Rightarrow> Inl e
      | Inr deadline_date \<Rightarrow>
          (let days_until = timedelta_days deadline_date date
           in case generate_review_sessions date deadlines of
                Inl e \<Rightarrow> Inl e
              | Inr review_sessions \<Rightarrow>
                  if days_until \<in> set [1, 3, 7] \<and> d_type dl \<in> set [Some ''exam'', Some ''project'']
                  then Inr (review_activity dl days_until # review_sessions)
                  else Inr review_sessions))"

definition generate_daily_plan ::
  "datetime \<Rightarrow> int \<Rightarrow> int \<Rightarrow> py_value \<Rightarrow> deadline list \<Rightarrow> 'p \<Rightarrow> py_error + activity list" where
  "generate_daily_plan date wakeup sleep study_style deadlines parsed_dates =
     (let day_of_week = weekday date;
          daily_plan = [mk_activity (format_02d wakeup @ '':00'')
                          (emoji_sunrise @ '' Morning Routine & Wake Up'') ''routine'' 60];
          breakfast_time = wakeup + 1;
          daily_plan = daily_plan @
            [mk_activity (format_02d breakfast_time @ '':00'') (emoji_cooking @ '' Breakfast'') ''meal'' 30];
          study_sessions = generate_study_sessions wakeup sleep study_style day_of_week;
          daily_plan = daily_plan @ study_sessions;
          daily_plan = daily_plan @
            [mk_activity ''12:00'' (emoji_salad @ '' Lunch Break'') ''meal'' 60,
             mk_activity ''18:00'' (emoji_plate @ '' Dinner'') ''meal'' 60];
          deadline_activities = get_deadlines_for_date date deadlines;
          daily_plan = daily_plan @ deadline_activities
      in case generate_review_sessions date deadlines of
           Inl e \<Rightarrow> Inl e
         | Inr review_sessions \<Rightarrow>
             (let daily_plan = daily_plan @ review_sessions;
                  daily_plan =
                    (if day_of_week < 5
                     then daily_plan @
                       [mk_activity (format_02d (wakeup + 8) @ '':00'')
                          (emoji_biceps @ '' Exercise/Wellness Time'') ''wellness'' 45]
                     else daily_plan);
                  free_time = sleep - 2;
                  daily_plan = daily_plan @
                    [mk_activity (format_02d free_time @ '':00'')
                       (emoji_party @ '' Free Time & Relaxation'') ''free'' 120]
              in Inr (sort_key a_time daily_plan)))"

text \<open>
  The preferences are a dictionary as well. \<open>datetime.today()\<close> is the parameter \<open>today\<close>.
  The schedule is a dictionary from date strings to daily plans, kept as an association
  list in insertion order.
\<close>

record user_data =
  ud_wakeup :: "py_value option"
  ud_sleep :: "py_value option"
  ud_study_style :: "py_value option"
  ud_deadlines :: "deadline list option"
  ud_email :: "py_value option"

type_synonym schedule = "(string \<times> activity list) list"

fun schedule_days ::
  "datetime \<Rightarrow> int \<Rightarrow> int \<Rightarrow> py_value \<Rightarrow> deadline list \<Rightarrow> 'p \<Rightarrow> nat list \<Rightarrow> schedule \<Rightarrow>
   py_error + schedule" where
  "schedule_days start_date wakeup sleep study_style deadlines parsed_dates [] schedule = Inr schedule"
| "schedule_days start_date wakeup sleep study_style deadlines parsed_dates (i # is) schedule =
     (case add_days start_date i of
        Inl e \<Rightarrow> Inl e
      | Inr current_day \<Rightarrow>
          (let date_str = strftime_ymd current_day
           in if dt_less current_day start_date
              then schedule_days start_date wakeup sleep study_style deadlines parsed_dates is schedule
              else
                (case generate_daily_plan current_day wakeup sleep study_style deadlines parsed_dates of
                   Inl e \<Rightarrow> Inl e
                 | Inr daily_plan \<Rightarrow>
                     schedule_days start_date wakeup sleep study_style deadlines parsed_dates is
                       (AList.update date_str daily_plan schedule))))"

definition create_schedule :: "'p \<Rightarrow> user_data \<Rightarrow> datetime \<Rightarrow> py_error + schedule" where
  "create_schedule parsed_dates ud today =
     (let schedule = []
      in case py_int (dict_get (ud_wakeup ud) (PyInt 8)) of
           Inl e \<Rightarrow> Inl e
         | Inr wakeup \<Rightarrow>
             (case py_int (dict_get (ud_sleep ud) (PyInt 23)) of
                Inl e \<Rightarrow> Inl e
              | Inr sleep \<Rightarrow>
                  (let study_style = dict_get (ud_study_style ud) (PyStr ''pomodoro'');
                       deadlines = dict_get (ud_deadlines ud) [];
                       email = dict_get (ud_email ud) (PyStr []);
                       start_date = today
                   in schedule_days start_date wakeup sleep study_style deadlines parsed_dates
                        [0..<120] schedule)))"

section \<open>Regular expressions as parser.py uses them\<close>

text \<open>
  The patterns of parser.py are sequences of literals, character classes, repeated
  classes, \<open>^\<close> and \<open>\b\<close>. A pattern is matched at one position by a backtracking
  matcher: a greedy repetition tries the longest run first, a lazy one the shortest.
  \<open>rx_match\<close> returns the text after the first match it finds; its second argument is
  the character before the position, \<open>None\<close> at the start of the string. All patterns are
  used with \<open>re.IGNORECASE\<close>, so a literal matches in either case.
\<close>

datatype rx_item =
    Chr char
  | Cls "char \<Rightarrow> bool"
  | Rep "char \<Rightarrow> bool" nat "nat option" bool
  | Bol
  | Wordb

definition rx_dot :: "char \<Rightarrow> bool" where
  "rx_dot c = (chr_code c \<noteq> 10)"

definition word_before :: "char option \<Rightarrow> bool" where
  "word_before prev = (case prev of None \<Rightarrow> False | Some c \<Rightarrow> is_word c)"

definition word_after :: "string \<Rightarrow> bool" where
  "word_after s = (case s of [] \<Rightarrow> False | c # _ \<Rightarrow> is_word c)"

fun first_some :: "'a option list \<Rightarrow> 'a option" where
  "first_some [] = None"
| "first_some (None # xs) = first_some xs"
| "first_some (Some x # xs) = Some x"

definition char_before :: "char option \<Rightarrow> string \<Rightarrow> nat \<Rightarrow> char option" where
  "char_before prev s k = (if k = 0 then prev else Some (s ! (k - 1)))"

fun rx_match :: "rx_item list \<Rightarrow> char option \<Rightarrow> string \<Rightarrow> string option" where
  "rx_match [] prev s = Some s"
| "rx_match (Chr c # items) prev s =
     (case s of
        [] \<Rightarrow> None
      | x # xs \<Rightarrow> if lower_char x = lower_char c then rx_match items (Some x) xs else None)"
| "rx_match (Cls p # items) prev s =
     (case s of
        [] \<Rightarrow> None
      | x # xs \<Rightarrow> if p x then rx_match items (Some x) xs else None)"
| "rx_match (Rep p lo hi greedy # items) prev s =
     (let n = length (takeWhile p s);
          top = (case hi of None \<Rightarrow> n | Some h \<Rightarrow> min h n);
          counts = (if greedy then rev [lo..<Suc top] else [lo..<Suc top])
      in first_some (map (\<lambda>k. rx_match items (char_before prev s k) (drop k s)) counts))"
| "rx_match (Bol # items) prev s = (if prev = None then rx_match items prev s else None)"
| "rx_match (Wordb # items) prev s =
     (if word_before prev \<noteq> word_after s then rx_match items prev s else None)"

text \<open>
  \<open>re.findall\<close> for a pattern without groups: the matched texts from left to right, each
  search starting where the last match ended. \<open>re.sub\<close> copies the text between the
  matches and puts the replacement in place of each match. (After an empty match both
  move on by one character; no pattern of parser.py matches the empty string.)
\<close>

function rx_findall :: "rx_item list \<Rightarrow> char option \<Rightarrow> string \<Rightarrow> string list" where
  "rx_findall pat prev s =
     (case rx_match pat prev s of
        None \<Rightarrow> (case s of [] \<Rightarrow> [] | x # xs \<Rightarrow> rx_findall pat (Some x) xs)
      | Some rest \<Rightarrow>
          if length rest < length s
          then take (length s - length rest) s #
               rx_findall pat (char_before prev s (length s - length rest)) rest
          else [] # (case s of [] \<Rightarrow> [] | x # xs \<Rightarrow> rx_findall pat (Some x) xs))"
  by pat_completeness auto
termination
  by (relation "measure (\<lambda>(pat, prev, s). length s)") auto

function rx_sub :: "rx_item list \<Rightarrow> string \<Rightarrow> char option \<Rightarrow> string \<Rightarrow> string" where
  "rx_sub pat repl prev s =
     (case rx_match pat prev s of
        None \<Rightarrow> (case s of [] \<Rightarrow> [] | x # xs \<Rightarrow> x # rx_sub pat repl (Some x) xs)
      | Some rest \<Rightarrow>
          if length rest < length s
          then repl @ rx_sub pat repl (char_before prev s (length s - length rest)) rest
          else repl @ (case s of [] \<Rightarrow> [] | x # xs \<Rightarrow> x # rx_sub pat repl (Some x) xs))"
  by pat_completeness auto
termination
  by (relation "measure (\<lambda>(pat, repl, prev, s). length s)") auto

declare rx_findall.simps [simp del] rx_sub.simps [simp del]

definition re_findall :: "rx_item list \<Rightarrow> string \<Rightarrow> string list" where
  "re_findall pat s = rx_findall pat None s"

definition re_sub :: "rx_item list \<Rightarrow> string \<Rightarrow> string \<Rightarrow> string" where
  "re_sub pat repl s = rx_sub pat repl None s"

section \<open>parser.py\<close>

text \<open>\<open>word in sentence\<close>: \<open>word\<close> occurs in \<open>sentence\<close> as a contiguous piece.\<close>

fun py_in :: "string \<Rightarrow> string \<Rightarrow> bool" where
  "py_in w [] = (w = [])"
| "py_in w (c # cs) = (take (length w) (c # cs) = w \<or> py_in w cs)"

definition determine_deadline_type :: "string \<Rightarrow> string" where
  "determine_deadline_type sentence =
     (let sentence_lower = py_lower sentence
      in if list_ex (\<lambda>word. py_in word sentence_lower) [''exam'', ''test'', ''final'', ''midterm'']
         then ''exam''
         else if list_ex (\<lambda>word. py_in word sentence_lower) [''assignment'', ''homework'', ''hw'']
         then ''assignment''
         else if list_ex (\<lambda>word. py_in word sentence_lower) [''project'', ''paper'']
         then ''project''
         else if py_in ''quiz'' sentence_lower
         then ''quiz''
         else if list_ex (\<lambda>word. py_in word sentence_lower) [''presentation'', ''present'']
         then ''presentation''
         else ''assignment'')"

text \<open>The pattern \<open>^.*?word:?\s*\<close> for one of the seven words.\<close>

definition prefix_pattern :: "string \<Rightarrow> rx_item list" where
  "prefix_pattern word =
     [Bol, Rep rx_dot 0 None False] @ map Chr word @
     [Rep ((=) CHR '':'') 0 (Some 1) True, Rep is_space 0 None True]"

definition prefixes_to_remove :: "rx_item list list" where
  "prefixes_to_remove = map prefix_pattern
     [''due'', ''deadline'', ''assignment'', ''exam'', ''test'', ''quiz'', ''project'']"

definition extract_deadline_title :: "string \<Rightarrow> string" where
  "extract_deadline_title sentence =
     (let sentence = py_strip sentence;
          title = sentence;
          title = fold (\<lambda>prefix title. re_sub prefix [] title) prefixes_to_remove title;
          title = py_strip (re_sub [Rep is_space 1 None True] '' '' title);
          title = (if length title > 100 then take 97 title @ ''...'' else title)
      in if title \<noteq> [] then title else ''Untitled Deadline'')"

text \<open>
  \<open>validate_and_format_date\<close>: \<open>datetime.now()\<close> is the parameter \<open>now\<close>. The loop goes on
  to the next format on a \<open>ValueError\<close>; any other exception would reach the outer
  \<open>except\<close>, which returns \<open>None\<close>.
\<close>

definition date_formats :: "string list" where
  "date_formats = [''%m/%d/%Y'', ''%m-%d-%Y'', ''%Y-%m-%d'', ''%B %d, %Y'', ''%d %B %Y'',
     ''%b %d, %Y'', ''%d %b %Y'', ''%m/%d'', ''%B %d'', ''%b %d'']"

definition parse_with_format :: "datetime \<Rightarrow> string \<Rightarrow> string \<Rightarrow> py_error + datetime" where
  "parse_with_format now date_str date_format =
     (if \<not> py_in ''%Y'' date_format then
        (let current_year = dt_year now;
             date_str_with_year = date_str @ '', '' @ str_nat current_year;
             date_format_with_year = date_format @ '', %Y''
         in strptime date_str_with_year date_format_with_year)
      else strptime date_str date_format)"

fun try_date_formats :: "datetime \<Rightarrow> string \<Rightarrow> string list \<Rightarrow> py_error + string option" where
  "try_date_formats now date_str [] = Inr None"
| "try_date_formats now date_str (date_format # formats) =
     (case parse_with_format now date_str date_format of
        Inr parsed_date \<Rightarrow> Inr (Some (strftime_ymd parsed_date))
      | Inl e \<Rightarrow> if e = ValueError then try_date_formats now date_str formats else Inl e)"

definition validate_and_format_date :: "datetime \<Rightarrow> string \<Rightarrow> string option" where
  "validate_and_format_date now date_str =
     (case try_date_formats now date_str date_formats of
        Inl e \<Rightarrow> None
      | Inr result \<Rightarrow> result)"

text \<open>
  \<open>extract_dates\<close>. \<open>list(set(dates))\<close> keeps one copy of each matched text; the order of a
  Python set is not fixed, and the model lists the texts in the order of \<open>remdups\<close>.
\<close>

definition date_patterns :: "rx_item list list" where
  "date_patterns =
     [[Rep is_digit 1 (Some 2) True, Chr CHR ''/'', Rep is_digit 1 (Some 2) True, Chr CHR ''/'',
       Rep is_digit 4 (Some 4) True],
      [Rep is_digit 1 (Some 2) True, Chr CHR ''-'', Rep is_digit 1 (Some 2) True, Chr CHR ''-'',
       Rep is_digit 4 (Some 4) True],
      [Rep is_digit 4 (Some 4) True, Chr CHR ''-'', Rep is_digit 1 (Some 2) True, Chr CHR ''-'',
       Rep is_digit 1 (Some 2) True],
      [Wordb, Rep is_word 1 None True, Chr CHR '' '', Rep is_digit 1 (Some 2) True, Chr CHR '','',
       Chr CHR '' '', Rep is_digit 4 (Some 4) True, Wordb],
      [Wordb, Rep is_digit 1 (Some 2) True, Chr CHR '' '', Rep is_word 1 None True, Chr CHR '' '',
       Rep is_digit 4 (Some 4) True, Wordb],
      [Wordb, Rep is_word 1 None True, Chr CHR '' '', Rep is_digit 1 (Some 2) True, Wordb]]"

fun validated :: "datetime \<Rightarrow> string list \<Rightarrow> string list" where
  "validated now [] = []"
| "validated now (date_str # dates) =
     (case validate_and_format_date now date_str of
        None \<Rightarrow> validated now dates
      | Some validated_date \<Rightarrow>
          if validated_date \<noteq> [] then validated_date # validated now dates
          else validated now dates)"

definition extract_dates :: "datetime \<Rightarrow> string \<Rightarrow> string list" where
  "extract_dates now text =
     (let dates = concat (map (\<lambda>pattern. re_findall pattern text) date_patterns);
          dates = remdups dates
      in validated now dates)"

section \<open>Notions used in the properties\<close>

definition day_of :: "datetime \<Rightarrow> nat \<Rightarrow> datetime" where
  "day_of t i = (case add_days t i of Inr d \<Rightarrow> d | Inl e \<Rightarrow> t)"

definition plan_of :: "datetime \<Rightarrow> int \<Rightarrow> int \<Rightarrow> py_value \<Rightarrow> deadline list \<Rightarrow> 'p \<Rightarrow> activity list" where
  "plan_of d w s st dls p = (case generate_daily_plan d w s st dls p of Inr x \<Rightarrow> x | Inl e \<Rightarrow> [])"

definition count_type :: "string \<Rightarrow> activity list \<Rightarrow> nat" where
  "count_type ty plan = length (filter (\<lambda>a. a_type a = ty) plan)"

definition labels :: "activity list \<Rightarrow> string list" where
  "labels plan = map a_activity plan"

definition fixed_activities_present :: "nat \<Rightarrow> activity list \<Rightarrow> bool" where
  "fixed_activities_present day_of_week plan =
     (6 \<le> length plan \<and>
      emoji_sunrise @ '' Morning Routine & Wake Up'' \<in> set (labels plan) \<and>
      emoji_cooking @ '' Breakfast'' \<in> set (labels plan) \<and>
      2 \<le> count_type ''study'' plan \<and>
      emoji_salad @ '' Lunch Break'' \<in> set (labels plan) \<and>
      emoji_plate @ '' Dinner'' \<in> set (labels plan) \<and>
      emoji_party @ '' Free Time & Relaxation'' \<in> set (labels plan) \<and>
      ((emoji_biceps @ '' Exercise/Wellness Time'' \<in> set (labels plan)) = (day_of_week < 5)) \<and>
      count_type ''wellness'' plan = (if day_of_week < 5 then 1 else 0))"

definition example_today :: datetime where
  "example_today = \<lparr>dt_year = 2024, dt_month = 1, dt_day = 1, dt_hour = 10, dt_minute = 30,
     dt_second = 0, dt_microsecond = 0\<rparr>"

definition no_preferences :: user_data where
  "no_preferences = \<lparr>ud_wakeup = None, ud_sleep = None, ud_study_style = None,
     ud_deadlines = None, ud_email = None\<rparr>"

definition duration_rule :: "activity \<Rightarrow> bool" where
  "duration_rule a = (if a_type a = ''deadline'' then a_duration a = None else a_duration a \<noteq> None)"

definition day_activities ::
  "datetime \<Rightarrow> int \<Rightarrow> int \<Rightarrow> py_value \<Rightarrow> deadline list \<Rightarrow> activity list \<Rightarrow> activity list" where
  "day_activities date w s st dls rs =
     [mk_activity (format_02d w @ '':00'') (emoji_sunrise @ '' Morning Routine & Wake Up'') ''routine'' 60,
      mk_activity (format_02d (w + 1) @ '':00'') (emoji_cooking @ '' Breakfast'') ''meal'' 30] @
     generate_study_sessions w s st (weekday date) @
     [mk_activity ''12:00'' (emoji_salad @ '' Lunch Break'') ''meal'' 60,
      mk_activity ''18:00'' (emoji_plate @ '' Dinner'') ''meal'' 60] @
     get_deadlines_for_date date dls @ rs @
     (if weekday date < 5
      then [mk_activity (format_02d (w + 8) @ '':00'') (emoji_biceps @ '' Exercise/Wellness Time'')
              ''wellness'' 45]
      else []) @
     [mk_activity (format_02d (s - 2) @ '':00'') (emoji_party @ '' Free Time & Relaxation'') ''free'' 120]"

definition exam_today :: deadline where
  "exam_today = \<lparr>d_date = Some ''2024-01-01'', d_time = Some ''09:00'', d_type = Some ''exam'',
     d_title = Some ''Midterm'', d_course_code = Some ''CS101'', d_description = Some []\<rparr>"

definition project_in_3_days :: deadline where
  "project_in_3_days = \<lparr>d_date = Some ''2024-01-04'', d_time = Some ''17:00'', d_type = Some ''project'',
     d_title = Some ''Report'', d_course_code = Some ''CS101'', d_description = Some []\<rparr>"

definition summary :: "activity \<Rightarrow> string \<times> string \<times> int option" where
  "summary a = (a_time a, a_type a, a_duration a)"

definition exam_preferences :: user_data where
  "exam_preferences = \<lparr>ud_wakeup = Some (PyInt 8), ud_sleep = Some (PyInt 23),
     ud_study_style = Some (PyStr ''pomodoro''), ud_deadlines = Some [exam_today], ud_email = None\<rparr>"

definition mentions :: "string \<Rightarrow> string \<Rightarrow> bool" where
  "mentions sentence word = (\<exists>before w after. sentence = before @ w @ after \<and> py_lower w = word)"

definition is_canonical_date :: "string \<Rightarrow> bool" where
  "is_canonical_date r =
     (length r = 10 \<and> r ! 4 = CHR ''-'' \<and> r ! 7 = CHR ''-'' \<and>
      list_all is_digit (take 4 r @ take 2 (drop 5 r) @ drop 8 r) \<and>
      valid_date (nat_of_digits 0 (take 4 r)) (nat_of_digits 0 (take 2 (drop 5 r)))
        (nat_of_digits 0 (drop 8 r)))"

definition yearless :: "string \<Rightarrow> bool" where
  "yearless date_str =
     list_all (\<lambda>fmt. isl (strptime date_str fmt)) (filter (py_in ''%Y'') date_formats)"

definition ci_starts :: "string \<Rightarrow> string \<Rightarrow> bool" where
  "ci_starts word s = (length word \<le> length s \<and>
     map lower_char (take (length word) s) = map lower_char word)"

fun find_word :: "string \<Rightarrow> string \<Rightarrow> string option" where
  "find_word word [] = (if word = [] then Some [] else None)"
| "find_word word (c # cs) =
     (if ci_starts word (c # cs) then Some (drop (length word) (c # cs))
      else if chr_code c = 10 then None
      else find_word word cs)"

definition after_label :: "string \<Rightarrow> string" where
  "after_label rest =
     dropWhile is_space (case rest of [] \<Rightarrow> [] | c # r \<Rightarrow> if c = CHR '':'' then r else rest)"

definition cut_through :: "string \<Rightarrow> string \<Rightarrow> string" where
  "cut_through word title =
     (case find_word word title of None \<Rightarrow> title | Some rest \<Rightarrow> after_label rest)"

definition label_words :: "string list" where
  "label_words = [''due'', ''deadline'', ''assignment'', ''exam'', ''test'', ''quiz'', ''project'']"

definition title_cleanup :: "string \<Rightarrow> string" where
  "title_cleanup title =
     (let title = py_strip (re_sub [Rep is_space 1 None True] '' '' title);
          title = (if length title > 100 then take 97 title @ ''...'' else title)
      in if title \<noteq> [] then title else ''Untitled Deadline'')"

fun prev_free :: "rx_item list \<Rightarrow> bool" where
  "prev_free [] = True"
| "prev_free (Bol # items) = False"
| "prev_free (Wordb # items) = False"
| "prev_free (item # items) = prev_free items"

section \<open>Dates and number formatting\<close>

lemma days_in_month_bounds: "28 \<le> days_in_month y m" "days_in_month y m \<le> 31"
  by (simp_all add: days_in_month_def)

lemma next_day_valid:
  assumes "valid_datetime t" "next_day t = Inr u"
  shows "valid_datetime u"
proof -
  have "1 \<le> days_in_month y m" for y m using days_in_month_bounds(1) [of y m] by simp
  with assms show ?thesis
    by (auto simp: valid_datetime_def valid_date_def next_day_def split: if_splits)
qed

lemma next_day_greater:
  assumes "next_day t = Inr u"
  shows "dt_key t < dt_key u"
  using assms by (auto simp: next_day_def dt_key_def split: if_splits)

lemma next_day_time:
  assumes "next_day t = Inr u"
  shows "dt_hour u = dt_hour t \<and> dt_minute u = dt_minute t \<and> dt_second u = dt_second t \<and>
    dt_microsecond u = dt_microsecond t"
  using assms by (auto simp: next_day_def split: if_splits)

lemma add_days_valid: "valid_datetime t \<Longrightarrow> add_days t i = Inr u \<Longrightarrow> valid_datetime u"
  by (induction i arbitrary: u) (auto split: sum.splits intro: next_day_valid)

lemma add_days_time:
  "add_days t i = Inr u \<Longrightarrow> dt_hour u = dt_hour t \<and> dt_minute u = dt_minute t \<and>
     dt_second u = dt_second t \<and> dt_microsecond u = dt_microsecond t"
  by (induction i arbitrary: u) (auto split: sum.splits dest: next_day_time)

lemma add_days_earlier: "add_days t j = Inr u \<Longrightarrow> i \<le> j \<Longrightarrow> \<exists>v. add_days t i = Inr v"
proof (induction j arbitrary: u)
  case 0
  then show ?case by simp
next
  case (Suc j)
  then show ?case by (cases "i = Suc j") (auto split: sum.splits)
qed

lemma add_days_mono:
  "add_days t i = Inr u \<Longrightarrow> add_days t j = Inr v \<Longrightarrow> i < j \<Longrightarrow> dt_key u < dt_key v"
proof (induction j arbitrary: v)
  case 0
  then show ?case by simp
next
  case (Suc j)
  from Suc.prems(2) obtain w where w: "add_days t j = Inr w" "next_day w = Inr v"
    by (auto split: sum.splits)
  have wv: "dt_key w < dt_key v" using w(2) by (rule next_day_greater)
  show ?case
  proof (cases "i = j")
    case True
    with Suc.prems(1) w(1) wv show ?thesis by simp
  next
    case False
    with Suc.prems(3) have "i < j" by simp
    from Suc.IH [OF Suc.prems(1) w(1) this] wv show ?thesis by (rule less_trans)
  qed
qed

lemma add_days_not_less: "add_days t i = Inr u \<Longrightarrow> \<not> dt_less u t"
proof (cases "i = 0")
  case True
  assume "add_days t i = Inr u"
  with True show ?thesis by (simp add: dt_less_def)
next
  case False
  assume u: "add_days t i = Inr u"
  have "add_days t 0 = Inr t" by simp
  from add_days_mono [OF this u] False have "dt_key t < dt_key u" by simp
  then show ?thesis unfolding dt_less_def by (simp add: less_asym)
qed


lemma chr_code_digit_char: "n < 10 \<Longrightarrow> chr_code (digit_char n) = 48 + n"
  by (simp add: chr_code_def digit_char_def)

lemma digit_val_digit_char: "n < 10 \<Longrightarrow> digit_val (digit_char n) = n"
  by (simp add: digit_val_def chr_code_digit_char)

lemma is_digit_digit_char: "n < 10 \<Longrightarrow> is_digit (digit_char n)"
  by (simp add: is_digit_def chr_code_digit_char)

lemma nat_of_digits_append:
  "nat_of_digits acc (xs @ ys) = nat_of_digits (nat_of_digits acc xs) ys"
  by (induction xs arbitrary: acc) auto

lemma nat_of_digits_str_nat: "nat_of_digits 0 (str_nat n) = n"
proof (induction n rule: str_nat.induct)
  case (1 n)
  show ?case
  proof (cases "n < 10")
    case True
    then show ?thesis by (subst str_nat.simps) (simp add: digit_val_digit_char)
  next
    case False
    with "1.IH" have "nat_of_digits 0 (str_nat (n div 10)) = n div 10" by simp
    with False show ?thesis
      by (subst str_nat.simps) (simp add: nat_of_digits_append digit_val_digit_char)
  qed
qed

lemma digits_str_nat: "\<forall>c \<in> set (str_nat n). is_digit c"
proof (induction n rule: str_nat.induct)
  case (1 n)
  show ?case
  proof (cases "n < 10")
    case True
    then show ?thesis by (subst str_nat.simps) (simp add: is_digit_digit_char)
  next
    case False
    with "1.IH" have "\<forall>c \<in> set (str_nat (n div 10)). is_digit c" by simp
    with False show ?thesis by (subst str_nat.simps) (simp add: is_digit_digit_char)
  qed
qed

lemma length_str_nat_le: "n < 10 ^ k \<Longrightarrow> 0 < k \<Longrightarrow> length (str_nat n) \<le> k"
proof (induction n arbitrary: k rule: str_nat.induct)
  case (1 n)
  show ?case
  proof (cases "n < 10")
    case True
    with "1.prems" show ?thesis by (subst str_nat.simps) simp
  next
    case False
    with "1.prems" have k: "1 < k" by (cases "k = 1") auto
    then obtain j where j: "k = Suc j" "0 < j" by (cases k) auto
    from "1.prems"(1) j have "n div 10 < 10 ^ j" by (simp add: less_mult_imp_div_less mult.commute)
    from "1.IH" [OF False this j(2)] have "length (str_nat (n div 10)) \<le> j" .
    with False j show ?thesis by (subst str_nat.simps) simp
  qed
qed

lemma str_nat_nonempty: "str_nat n \<noteq> []"
  by (subst str_nat.simps) simp

lemma nat_of_digits_zeros: "nat_of_digits 0 (replicate k CHR ''0'' @ s) = nat_of_digits 0 s"
  by (induction k) (simp_all add: digit_val_def chr_code_def)

lemma nat_of_digits_zfill: "nat_of_digits 0 (zfill w (str_nat n)) = n"
  by (simp add: zfill_def nat_of_digits_zeros nat_of_digits_str_nat)

lemma length_zfill: "length s \<le> w \<Longrightarrow> length (zfill w s) = w"
  by (simp add: zfill_def)

lemma digits_zfill: "\<forall>c \<in> set (zfill w (str_nat n)). is_digit c"
  using digits_str_nat [of n] by (auto simp: zfill_def is_digit_def chr_code_def)

lemma length_zfill4: "n \<le> 9999 \<Longrightarrow> length (zfill 4 (str_nat n)) = 4"
  by (rule length_zfill) (rule length_str_nat_le, simp_all)

lemma length_zfill2: "n \<le> 99 \<Longrightarrow> length (zfill 2 (str_nat n)) = 2"
  by (rule length_zfill) (rule length_str_nat_le, simp_all)

lemma valid_date_bounds: "valid_date y m d \<Longrightarrow> y \<le> 9999 \<and> m \<le> 99 \<and> d \<le> 99"
  using days_in_month_def by (auto simp: valid_date_def days_in_month_def split: if_splits)

lemma digits_then_dash:
  assumes "a @ CHR ''-'' # x = b @ CHR ''-'' # y"
    and "\<forall>c \<in> set a. is_digit c" "\<forall>c \<in> set b. is_digit c"
  shows "a = b \<and> x = y"
proof -
  have nd: "\<not> is_digit CHR ''-''" by (simp add: is_digit_def chr_code_def)
  have "takeWhile is_digit (a @ CHR ''-'' # x) = a"
    using assms(2) nd by (simp add: takeWhile_append2)
  moreover have "takeWhile is_digit (b @ CHR ''-'' # y) = b"
    using assms(3) nd by (simp add: takeWhile_append2)
  ultimately have "a = b" using assms(1) by simp
  with assms(1) show ?thesis by simp
qed

lemma str_nat_inj: "str_nat m = str_nat n \<Longrightarrow> m = n"
  by (metis nat_of_digits_str_nat)

lemma strftime_ymd_inj:
  assumes "valid_datetime t" "valid_datetime u" "strftime_ymd t = strftime_ymd u"
  shows "dt_year t = dt_year u \<and> dt_month t = dt_month u \<and> dt_day t = dt_day u"
proof -
  let ?rest = "\<lambda>v. zfill 2 (str_nat (dt_month v)) @ CHR ''-'' # zfill 2 (str_nat (dt_day v))"
  from assms(3) have "str_nat (dt_year t) @ CHR ''-'' # ?rest t = str_nat (dt_year u) @ CHR ''-'' # ?rest u"
    by (simp add: strftime_ymd_def)
  from digits_then_dash [OF this digits_str_nat digits_str_nat]
  have y: "str_nat (dt_year t) = str_nat (dt_year u)" and r: "?rest t = ?rest u" by simp_all
  from digits_then_dash [OF r digits_zfill digits_zfill]
  have "zfill 2 (str_nat (dt_month t)) = zfill 2 (str_nat (dt_month u))"
    "zfill 2 (str_nat (dt_day t)) = zfill 2 (str_nat (dt_day u))" by simp_all
  then have "nat_of_digits 0 (zfill 2 (str_nat (dt_month t))) = nat_of_digits 0 (zfill 2 (str_nat (dt_month u)))"
    "nat_of_digits 0 (zfill 2 (str_nat (dt_day t))) = nat_of_digits 0 (zfill 2 (str_nat (dt_day u)))"
    by simp_all
  with y show ?thesis by (simp add: nat_of_digits_zfill str_nat_inj)
qed

section \<open>The schedule over the horizon\<close>

lemma update_fresh: "k \<notin> fst ` set al \<Longrightarrow> AList.update k v al = al @ [(k, v)]"
  by (induction al) auto

lemma generate_review_sessions_returns:
  "\<forall>dl \<in> set dls. \<exists>d. strptime (dict_get (d_date dl) []) ''%Y-%m-%d'' = Inr d \<Longrightarrow>
   \<exists>rs. generate_review_sessions date dls = Inr rs"
proof (induction dls)
  case Nil
  then show ?case by simp
next
  case (Cons dl dls)
  then obtain d rs where "strptime (dict_get (d_date dl) []) ''%Y-%m-%d'' = Inr d"
    "generate_review_sessions date dls = Inr rs" by auto
  then show ?case by (simp add: Let_def del: set_simps)
qed

lemma generate_daily_plan_returns:
  "generate_review_sessions date dls = Inr rs \<Longrightarrow>
   \<exists>plan. generate_daily_plan date w s st dls p = Inr plan"
  by (simp add: generate_daily_plan_def Let_def)

lemma schedule_days_Inr:
  assumes "\<And>i. i \<in> set js \<Longrightarrow>
      add_days t i = Inr (D i) \<and> generate_daily_plan (D i) w s st dls p = Inr (P i)"
    and "distinct (map (\<lambda>i. strftime_ymd (D i)) js)"
    and "\<forall>i \<in> set js. strftime_ymd (D i) \<notin> fst ` set acc"
  shows "schedule_days t w s st dls p js acc = Inr (acc @ map (\<lambda>i. (strftime_ymd (D i), P i)) js)"
  using assms
proof (induction js arbitrary: acc)
  case Nil
  then show ?case by simp
next
  case (Cons j js)
  have j: "add_days t j = Inr (D j)" "generate_daily_plan (D j) w s st dls p = Inr (P j)"
    using Cons.prems(1) [of j] by simp_all
  have nl: "\<not> dt_less (D j) t" using j(1) by (rule add_days_not_less)
  have fresh: "strftime_ymd (D j) \<notin> fst ` set acc" using Cons.prems(3) by simp
  let ?acc = "acc @ [(strftime_ymd (D j), P j)]"
  have "schedule_days t w s st dls p js ?acc =
      Inr (?acc @ map (\<lambda>i. (strftime_ymd (D i), P i)) js)"
  proof (rule Cons.IH)
    show "\<And>i. i \<in> set js \<Longrightarrow>
      add_days t i = Inr (D i) \<and> generate_daily_plan (D i) w s st dls p = Inr (P i)"
      using Cons.prems(1) by simp
    show "distinct (map (\<lambda>i. strftime_ymd (D i)) js)" using Cons.prems(2) by simp
    show "\<forall>i \<in> set js. strftime_ymd (D i) \<notin> fst ` set ?acc"
      using Cons.prems(2,3) by (auto simp: image_iff)
  qed
  with j nl fresh show ?case by (simp add: Let_def update_fresh)
qed

lemma add_days_keys_inj:
  assumes "valid_datetime t" "add_days t i = Inr u" "add_days t j = Inr v"
    "strftime_ymd u = strftime_ymd v"
  shows "i = j"
proof (rule ccontr)
  assume ne: "i \<noteq> j"
  have vu: "valid_datetime u" and vv: "valid_datetime v"
    using assms add_days_valid by blast+
  from strftime_ymd_inj [OF vu vv assms(4)] add_days_time [OF assms(2)] add_days_time [OF assms(3)]
  have eq: "dt_key u = dt_key v" by (simp add: dt_key_def)
  from ne consider "i < j" | "j < i" by linarith
  then show False
  proof cases
    case 1
    from add_days_mono [OF assms(2,3) 1] eq show False by simp
  next
    case 2
    from add_days_mono [OF assms(3,2) 2] eq show False by simp
  qed
qed

lemma create_schedule_Inr:
  assumes today: "valid_datetime today" "add_days today 119 = Inr last_day"
    and prefs: "py_int (dict_get (ud_wakeup ud) (PyInt 8)) = Inr w"
      "py_int (dict_get (ud_sleep ud) (PyInt 23)) = Inr s"
    and dls: "\<forall>dl \<in> set (dict_get (ud_deadlines ud) []).
      \<exists>d. strptime (dict_get (d_date dl) []) ''%Y-%m-%d'' = Inr d"
  shows "create_schedule p ud today =
    Inr (map (\<lambda>i. (strftime_ymd (day_of today i),
           plan_of (day_of today i) w s (dict_get (ud_study_style ud) (PyStr ''pomodoro''))
             (dict_get (ud_deadlines ud) []) p)) [0..<120])"
proof -
  let ?st = "dict_get (ud_study_style ud) (PyStr ''pomodoro'')"
  let ?dls = "dict_get (ud_deadlines ud) []"
  have D: "add_days today i = Inr (day_of today i)" if "i < 120" for i
  proof -
    from that have "i \<le> 119" by simp
    from add_days_earlier [OF today(2) this] show ?thesis by (auto simp: day_of_def)
  qed
  have P: "generate_daily_plan d w s ?st ?dls p = Inr (plan_of d w s ?st ?dls p)" for d
  proof -
    from generate_review_sessions_returns [OF dls] obtain rs
      where "generate_review_sessions d ?dls = Inr rs" by blast
    from generate_daily_plan_returns [OF this, of w s ?st p] show ?thesis
      by (auto simp: plan_of_def)
  qed
  have inj: "inj_on (\<lambda>i. strftime_ymd (day_of today i)) (set [0..<120])"
  proof (rule inj_onI)
    fix i j assume "i \<in> set [0..<120]" "j \<in> set [0..<120]"
      "strftime_ymd (day_of today i) = strftime_ymd (day_of today j)"
    then show "i = j" using add_days_keys_inj [OF today(1) D D] by simp
  qed
  have "schedule_days today w s ?st ?dls p [0..<120] [] =
     Inr ([] @ map (\<lambda>i. (strftime_ymd (day_of today i), plan_of (day_of today i) w s ?st ?dls p)) [0..<120])"
  proof (rule schedule_days_Inr)
    show "\<And>i. i \<in> set [0..<120] \<Longrightarrow> add_days today i = Inr (day_of today i) \<and>
       generate_daily_plan (day_of today i) w s ?st ?dls p = Inr (plan_of (day_of today i) w s ?st ?dls p)"
      using D P by simp
    show "distinct (map (\<lambda>i. strftime_ymd (day_of today i)) [0..<120])"
      using inj by (simp add: distinct_map)
    show "\<forall>i\<in>set [0..<120]. strftime_ymd (day_of today i) \<notin> fst ` set []" by simp
  qed
  with prefs show ?thesis by (simp add: create_schedule_def Let_def)
qed



lemma count_type_sort_key: "count_type ty (sort_key f xs) = count_type ty xs"
  by (simp add: count_type_def filter_sort)

lemma labels_sort_key: "set (labels (sort_key f xs)) = set (labels xs)"
  by (simp add: labels_def)

lemma study_sessions_count: "2 \<le> count_type ''study'' (generate_study_sessions w s st d)"
  by (simp add: generate_study_sessions_def count_type_def mk_study_def mk_activity_def Let_def)

lemma study_sessions_types: "\<forall>a \<in> set (generate_study_sessions w s st d). a_type a = ''study''"
  by (simp add: generate_study_sessions_def mk_study_def mk_activity_def Let_def)

lemma study_sessions_labels:
  "\<forall>a \<in> set (generate_study_sessions w s st d). take 4 (a_activity a) = emoji_books"
  by (simp add: generate_study_sessions_def mk_study_def mk_activity_def Let_def emoji_books_def emoji_def)

lemma daily_plan_no_deadlines:
  "fixed_activities_present (weekday d) (plan_of d w s st [] p)"
proof -
  let ?ss = "generate_study_sessions w s st (weekday d)"
  have wl: "emoji_biceps @ '' Exercise/Wellness Time'' \<notin> set (labels ?ss)"
  proof
    assume "emoji_biceps @ '' Exercise/Wellness Time'' \<in> set (labels ?ss)"
    then obtain a where "a \<in> set ?ss" "a_activity a = emoji_biceps @ '' Exercise/Wellness Time''"
      by (auto simp: labels_def)
    with study_sessions_labels [of w s st "weekday d"] show False
      by (auto simp: emoji_biceps_def emoji_books_def emoji_def)
  qed
  have wc: "count_type ''wellness'' ?ss = 0"
    using study_sessions_types [of w s st "weekday d"] by (auto simp: count_type_def)
  have sc: "2 \<le> count_type ''study'' ?ss" by (rule study_sessions_count)
  have "count_type ''study'' ?ss \<le> length ?ss"
    unfolding count_type_def by (rule length_filter_le)
  with sc have sl: "2 \<le> length ?ss" by (rule order_trans)
  show ?thesis
    using wl wc sc sl
    apply (simp add: fixed_activities_present_def plan_of_def generate_daily_plan_def Let_def
      count_type_sort_key labels_sort_key)
    apply (simp add: count_type_def labels_def mk_activity_def)
    done
qed

text \<open>
  Claim C5. With preferences that \<open>int\<close> accepts and no deadlines, \<open>create_schedule\<close>
  returns a schedule with exactly 120 keys, the dates of today and the 119 days after it
  in order, and every day's plan holds at least six activities: the morning routine,
  breakfast, at least two study blocks, lunch, dinner and free time, and the wellness
  activity exactly on the weekdays Monday to Friday. (Today is a valid date, and the
  horizon ends before the last date that \<open>datetime\<close> can hold.)
\<close>

theorem create_schedule_no_deadlines:
  assumes "valid_datetime today" and "add_days today 119 = Inr last_day"
    and "py_int (dict_get (ud_wakeup ud) (PyInt 8)) = Inr w"
    and "py_int (dict_get (ud_sleep ud) (PyInt 23)) = Inr s"
    and "dict_get (ud_deadlines ud) [] = []"
  shows "\<exists>sched. create_schedule p ud today = Inr sched \<and> length sched = 120 \<and>
      distinct (map fst sched) \<and>
      (\<forall>i<120. \<exists>day. add_days today i = Inr day \<and> fst (sched ! i) = strftime_ymd day \<and>
         fixed_activities_present (weekday day) (snd (sched ! i)))"
proof -
  let ?st = "dict_get (ud_study_style ud) (PyStr ''pomodoro'')"
  let ?sched = "map (\<lambda>i. (strftime_ymd (day_of today i), plan_of (day_of today i) w s ?st [] p)) [0..<120]"
  have cs: "create_schedule p ud today = Inr ?sched"
    using create_schedule_Inr [OF assms(1-4), of p] assms(5) by simp
  have D: "add_days today i = Inr (day_of today i)" if "i < 120" for i
  proof -
    from that have "i \<le> 119" by simp
    from add_days_earlier [OF assms(2) this] show ?thesis by (auto simp: day_of_def)
  qed
  have "inj_on (\<lambda>i. strftime_ymd (day_of today i)) (set [0..<120])"
  proof (rule inj_onI)
    fix i j assume "i \<in> set [0..<120]" "j \<in> set [0..<120]"
      "strftime_ymd (day_of today i) = strftime_ymd (day_of today j)"
    then show "i = j" using add_days_keys_inj [OF assms(1) D D] by simp
  qed
  then have dist: "distinct (map fst ?sched)" by (simp add: distinct_map comp_def)
  have days: "\<forall>i<120. \<exists>day. add_days today i = Inr day \<and> fst (?sched ! i) = strftime_ymd day \<and>
         fixed_activities_present (weekday day) (snd (?sched ! i))"
  proof (intro allI impI)
    fix i :: nat assume i: "i < 120"
    then have nth: "?sched ! i = (strftime_ymd (day_of today i), plan_of (day_of today i) w s ?st [] p)"
      by (simp del: upt_Suc)
    show "\<exists>day. add_days today i = Inr day \<and> fst (?sched ! i) = strftime_ymd day \<and>
         fixed_activities_present (weekday day) (snd (?sched ! i))"
      using D [OF i] nth daily_plan_no_deadlines by (intro exI [of _ "day_of today i"]) simp
  qed
  have "length ?sched = 120" by simp
  with cs dist days show ?thesis by blast
qed



lemma example_today_valid: "valid_datetime example_today"
  by (simp add: valid_datetime_def valid_date_def example_today_def days_in_month_def)

lemma next_day_simp:
  "next_day \<lparr>dt_year = y, dt_month = m, dt_day = d, dt_hour = h, dt_minute = mi,
     dt_second = s, dt_microsecond = us\<rparr> =
     (if d < days_in_month y m then Inr \<lparr>dt_year = y, dt_month = m, dt_day = d + 1, dt_hour = h, dt_minute = mi,
     dt_second = s, dt_microsecond = us\<rparr>
      else if m < 12 then Inr \<lparr>dt_year = y, dt_month = m + 1, dt_day = 1, dt_hour = h, dt_minute = mi,
     dt_second = s, dt_microsecond = us\<rparr>
      else if y < 9999 then Inr \<lparr>dt_year = y + 1, dt_month = 1, dt_day = 1, dt_hour = h, dt_minute = mi,
     dt_second = s, dt_microsecond = us\<rparr>
      else Inl OverflowError)"
  by (simp add: next_day_def)

lemma add_days_numeral: "add_days t (numeral n) = 
   (case add_days t (pred_numeral n) of Inl e \<Rightarrow> Inl e | Inr u \<Rightarrow> next_day u)"
  by (simp add: numeral_eq_Suc)

lemma example_today_119:
  "add_days example_today 119 = Inr (example_today\<lparr>dt_month := 4, dt_day := 29\<rparr>)"
  by (simp add: add_days_numeral next_day_simp example_today_def days_in_month_def is_leap_def)

theorem create_schedule_no_deadlines_witness:
  "valid_datetime example_today \<and>
   add_days example_today 119 = Inr (example_today\<lparr>dt_month := 4, dt_day := 29\<rparr>) \<and>
   py_int (dict_get (ud_wakeup no_preferences) (PyInt 8)) = Inr 8 \<and>
   py_int (dict_get (ud_sleep no_preferences) (PyInt 23)) = Inr 23 \<and>
   dict_get (ud_deadlines no_preferences) [] = [] \<and>
   (\<exists>sched. create_schedule () no_preferences example_today = Inr sched \<and> length sched = 120 \<and>
      distinct (map fst sched) \<and>
      (\<forall>i<120. \<exists>day. add_days example_today i = Inr day \<and> fst (sched ! i) = strftime_ymd day \<and>
         fixed_activities_present (weekday day) (snd (sched ! i))))"
proof -
  have h: "py_int (dict_get (ud_wakeup no_preferences) (PyInt 8)) = Inr 8"
    "py_int (dict_get (ud_sleep no_preferences) (PyInt 23)) = Inr 23"
    "dict_get (ud_deadlines no_preferences) [] = []"
    by (simp_all add: no_preferences_def dict_get_def)
  note r = create_schedule_no_deadlines [OF example_today_valid example_today_119 h, of "()"]
  show ?thesis
    by (intro conjI example_today_valid example_today_119 h r)
qed


section \<open>Durations of scheduled activities\<close>

lemma study_sessions_duration: "\<forall>a \<in> set (generate_study_sessions w s st d). duration_rule a"
  by (simp add: generate_study_sessions_def mk_study_def mk_activity_def Let_def duration_rule_def)

lemma deadlines_for_date_duration: "\<forall>a \<in> set (get_deadlines_for_date date dls). duration_rule a"
  by (induction dls) (simp_all add: Let_def deadline_activity_def duration_rule_def)

lemma review_sessions_duration:
  "generate_review_sessions date dls = Inr rs \<Longrightarrow> \<forall>a \<in> set rs. duration_rule a"
proof (induction dls arbitrary: rs)
  case Nil
  then show ?case by simp
next
  case (Cons dl dls)
  from Cons.prems obtain rs' where rs': "generate_review_sessions date dls = Inr rs'"
    and "rs = rs' \<or> (\<exists>n. rs = review_activity dl n # rs')"
    by (auto simp: Let_def split: sum.splits if_splits)
  moreover have "duration_rule (review_activity dl n)" for n
    by (simp add: review_activity_def duration_rule_def)
  ultimately show ?case using Cons.IH [OF rs'] by auto
qed

lemma generate_daily_plan_sorted:
  "generate_daily_plan date w s st dls p =
     (case generate_review_sessions date dls of
        Inl e \<Rightarrow> Inl e
      | Inr rs \<Rightarrow> Inr (sort_key a_time (day_activities date w s st dls rs)))"
  by (simp add: generate_daily_plan_def day_activities_def Let_def split: sum.splits)

lemma daily_plan_duration:
  assumes "generate_daily_plan date w s st dls p = Inr plan"
  shows "\<forall>a \<in> set plan. duration_rule a"
proof -
  from assms obtain rs where rs: "generate_review_sessions date dls = Inr rs"
    and plan: "set plan = set (day_activities date w s st dls rs)"
    by (auto simp: generate_daily_plan_sorted split: sum.splits)
  have fixed: "duration_rule (mk_activity t l ty n)" if "ty \<noteq> ''deadline''" for t l ty n
    using that by (simp add: mk_activity_def duration_rule_def)
  show ?thesis
    using study_sessions_duration [of w s st "weekday date"] deadlines_for_date_duration [of date dls]
      review_sessions_duration [OF rs]
    unfolding plan day_activities_def by (auto simp: fixed)
qed

lemma set_update_subset: "set (AList.update k v al) \<subseteq> insert (k, v) (set al)"
  by (induction al) auto

lemma schedule_days_plans:
  assumes "schedule_days t w s st dls p js acc = Inr sched" "(k, plan) \<in> set sched"
  shows "(k, plan) \<in> set acc \<or> (\<exists>day. generate_daily_plan day w s st dls p = Inr plan)"
  using assms
proof (induction js arbitrary: acc)
  case Nil
  then show ?case by simp
next
  case (Cons j js)
  from Cons.prems(1) obtain day where day: "add_days t j = Inr day"
    by (auto split: sum.splits)
  show ?case
  proof (cases "dt_less day t")
    case True
    with Cons.prems(1) day have "schedule_days t w s st dls p js acc = Inr sched"
      by (simp add: Let_def)
    from Cons.IH [OF this Cons.prems(2)] show ?thesis .
  next
    case False
    with Cons.prems(1) day obtain dp where dp: "generate_daily_plan day w s st dls p = Inr dp"
      and rest: "schedule_days t w s st dls p js (AList.update (strftime_ymd day) dp acc) = Inr sched"
      by (auto simp: Let_def split: sum.splits)
    from Cons.IH [OF rest Cons.prems(2)] show ?thesis
    proof
      assume "(k, plan) \<in> set (AList.update (strftime_ymd day) dp acc)"
      with set_update_subset [of "strftime_ymd day" dp acc]
      have "(k, plan) = (strftime_ymd day, dp) \<or> (k, plan) \<in> set acc" by auto
      with dp show ?thesis by auto
    qed blast
  qed
qed

lemma create_schedule_plans:
  assumes "create_schedule p ud today = Inr sched" "(k, plan) \<in> set sched"
  shows "\<exists>day w s st dls. generate_daily_plan day w s st dls p = Inr plan"
proof -
  from assms(1) obtain w s st dls where "schedule_days today w s st dls p [0..<120] [] = Inr sched"
    by (auto simp: create_schedule_def Let_def split: sum.splits)
  from schedule_days_plans [OF this assms(2)] show ?thesis by simp blast
qed

text \<open>
  Claim C3, as the code has it. Every activity placed into a day of the schedule that is
  not a deadline activity carries a duration, a whole number of minutes; a deadline
  activity, emitted for a deadline falling on that day, carries no duration.
\<close>

theorem scheduled_activity_durations:
  assumes "create_schedule p ud today = Inr sched" and "(k, plan) \<in> set sched" and "a \<in> set plan"
  shows "(a_type a = ''deadline'' \<longrightarrow> a_duration a = None) \<and>
         (a_type a \<noteq> ''deadline'' \<longrightarrow> (\<exists>minutes. a_duration a = Some minutes))"
proof -
  from create_schedule_plans [OF assms(1,2)] obtain day w s st dls
    where "generate_daily_plan day w s st dls p = Inr plan" by blast
  from daily_plan_duration [OF this] assms(3) have "duration_rule a" by blast
  then show ?thesis by (auto simp: duration_rule_def)
qed


section \<open>Evaluation at example inputs\<close>

lemma strftime_example_today: "strftime_ymd example_today = ''2024-01-01''"
  by (simp add: strftime_ymd_def zfill_def str_nat.simps digit_char_def example_today_def
      char_of_def bit_Suc_0_iff)

lemma strptime_0101: "strptime ''2024-01-01'' ''%Y-%m-%d'' = Inr (midnight 2024 1 1)"
  by code_simp

lemma strptime_0104: "strptime ''2024-01-04'' ''%Y-%m-%d'' = Inr (midnight 2024 1 4)"
  by code_simp

lemma upt_1_numeral: "[1..<numeral n] = (if 1 < (numeral n::nat) then 1 # [Suc 1..<numeral n] else [])"
  by (simp add: upt_rec)

lemmas ordinal_defs = toordinal_def days_before_year_def days_before_month_def days_in_month_def
  is_leap_def

lemma weekday_example_today: "weekday example_today = 0"
  by (simp add: weekday_def ordinal_defs example_today_def)

lemma days_until_0104: "timedelta_days (midnight 2024 1 4) example_today = 2"
  by (simp add: timedelta_days_def to_microseconds_def ordinal_defs midnight_def example_today_def upt_rec)

lemma days_until_0101: "timedelta_days (midnight 2024 1 1) example_today = -1"
  by (simp add: timedelta_days_def to_microseconds_def ordinal_defs midnight_def example_today_def upt_rec)

lemma review_today: "generate_review_sessions example_today [project_in_3_days] = Inr []"
  by (simp add: project_in_3_days_def dict_get_def strptime_0104 days_until_0104 del: One_nat_def)

lemma example_tomorrow: "add_days example_today 1 = Inr (example_today\<lparr>dt_day := 2\<rparr>)"
  by (simp add: next_day_def example_today_def days_in_month_def)

lemma days_until_0104_tomorrow: "timedelta_days (midnight 2024 1 4) (example_today\<lparr>dt_day := 2\<rparr>) = 1"
  by (simp add: timedelta_days_def to_microseconds_def ordinal_defs midnight_def example_today_def upt_rec)

lemma review_tomorrow: "generate_review_sessions (example_today\<lparr>dt_day := 2\<rparr>) [project_in_3_days] = 
   Inr [review_activity project_in_3_days 1]"
  by (simp add: project_in_3_days_def dict_get_def strptime_0104 days_until_0104_tomorrow del: One_nat_def)


lemma f1: "format_02d 8 = ''08''"
  by (simp add: format_02d_def zfill_def str_nat.simps digit_char_def char_of_def bit_Suc_0_iff)
lemma f2: "format_02d 10 = ''10''"
  by (simp add: format_02d_def zfill_def str_nat.simps digit_char_def char_of_def bit_Suc_0_iff)
lemma f3: "format_02d (-3) = ''-3''"
  by (simp add: format_02d_def zfill_def str_nat.simps digit_char_def char_of_def bit_Suc_0_iff)
lemma f4: "map a_time (generate_study_sessions 8 23 (PyStr ''pomodoro'') 0) = [''10:00'', ''14:00'', ''19:00'']"
  by (simp add: generate_study_sessions_def mk_study_def mk_activity_def Let_def format_02d_def zfill_def str_nat.simps digit_char_def char_of_def bit_Suc_0_iff)


lemmas format_eval = format_02d_def zfill_def str_nat.simps digit_char_def char_of_def bit_Suc_0_iff

lemma map_insort_key:
  assumes "\<And>x. f x = k (g x)"
  shows "map g (insort_key f x xs) = insort_key k (g x) (map g xs)"
  by (induction xs) (simp_all add: assms)

lemma map_sort_key:
  assumes "\<And>x. f x = k (g x)"
  shows "map g (sort_key f xs) = sort_key k (map g xs)"
  by (induction xs) (simp_all add: map_insort_key [of f k g, OF assms])

lemma summary_sorted: "map summary (sort_key a_time xs) = sort_key fst (map summary xs)"
  by (rule map_sort_key) (simp add: summary_def)

lemma g1: "generate_review_sessions example_today [exam_today] = Inr []"
  by (simp add: exam_today_def dict_get_def strptime_0101 days_until_0101 del: One_nat_def)

lemma plan_exam_today:
  "generate_daily_plan example_today 8 23 (PyStr ''pomodoro'') [exam_today] () =
     Inr (sort_key a_time (day_activities example_today 8 23 (PyStr ''pomodoro'') [exam_today] []))"
  by (simp only: generate_daily_plan_sorted g1 sum.case)

lemma activities_exam_today:
  "map summary (day_activities example_today 8 23 (PyStr ''pomodoro'') [exam_today] []) =
   [(''08:00'', ''routine'', Some 60), (''09:00'', ''meal'', Some 30), (''10:00'', ''study'', Some 120),
    (''14:00'', ''study'', Some 120), (''19:00'', ''study'', Some 60), (''12:00'', ''meal'', Some 60),
    (''18:00'', ''meal'', Some 60), (''09:00'', ''deadline'', None), (''16:00'', ''wellness'', Some 45),
    (''21:00'', ''free'', Some 120)]"
  by (simp add: day_activities_def strftime_example_today weekday_example_today summary_def
      generate_study_sessions_def mk_study_def mk_activity_def Let_def deadline_activity_def
      exam_today_def dict_get_def format_eval)

text \<open>
  Against claim C3 as stated: the plan of a day on which an exam falls holds a deadline
  activity whose duration is absent.
\<close>

theorem deadline_activity_without_duration:
  "map_sum id (map summary)
     (generate_daily_plan example_today 8 23 (PyStr ''pomodoro'') [exam_today] ()) =
   Inr [(''08:00'', ''routine'', Some 60), (''09:00'', ''meal'', Some 30), (''09:00'', ''deadline'', None),
        (''10:00'', ''study'', Some 120), (''12:00'', ''meal'', Some 60), (''14:00'', ''study'', Some 120),
        (''16:00'', ''wellness'', Some 45), (''18:00'', ''meal'', Some 60), (''19:00'', ''study'', Some 60),
        (''21:00'', ''free'', Some 120)]"
  by (simp add: plan_exam_today summary_sorted activities_exam_today)


lemma deadlines_exam_today:
  "get_deadlines_for_date example_today [exam_today] = [deadline_activity exam_today]"
  by (simp add: strftime_example_today exam_today_def)

theorem scheduled_activity_durations_witness:
  "\<exists>sched plan. create_schedule () exam_preferences example_today = Inr sched \<and>
     (''2024-01-01'', plan) \<in> set sched \<and> deadline_activity exam_today \<in> set plan \<and>
     (a_type (deadline_activity exam_today) = ''deadline'' \<longrightarrow>
        a_duration (deadline_activity exam_today) = None) \<and>
     (a_type (deadline_activity exam_today) \<noteq> ''deadline'' \<longrightarrow>
        (\<exists>minutes. a_duration (deadline_activity exam_today) = Some minutes))"
proof -
  let ?plan = "\<lambda>d. plan_of d 8 23 (PyStr ''pomodoro'') [exam_today] ()"
  let ?entry = "\<lambda>i. (strftime_ymd (day_of example_today i), ?plan (day_of example_today i))"
  let ?sched = "map ?entry [0..<120]"
  have "create_schedule () exam_preferences example_today =
      Inr (map (\<lambda>i. (strftime_ymd (day_of example_today i),
           plan_of (day_of example_today i) 8 23
             (dict_get (ud_study_style exam_preferences) (PyStr ''pomodoro''))
             (dict_get (ud_deadlines exam_preferences) []) ())) [0..<120])"
    by (rule create_schedule_Inr [OF example_today_valid example_today_119])
      (simp_all add: exam_preferences_def dict_get_def exam_today_def strptime_0101)
  then have cs: "create_schedule () exam_preferences example_today = Inr ?sched"
    by (simp add: exam_preferences_def dict_get_def)
  have "?entry 0 \<in> ?entry ` set [0..<120]" by (rule imageI) simp
  then have mem: "(''2024-01-01'', ?plan example_today) \<in> set ?sched"
    by (simp add: day_of_def strftime_example_today)
  have "?plan example_today =
      sort_key a_time (day_activities example_today 8 23 (PyStr ''pomodoro'') [exam_today] [])"
    by (simp only: plan_of_def plan_exam_today sum.case)
  moreover have "deadline_activity exam_today \<in>
      set (day_activities example_today 8 23 (PyStr ''pomodoro'') [exam_today] [])"
    unfolding day_activities_def deadlines_exam_today by simp
  ultimately have act: "deadline_activity exam_today \<in> set (?plan example_today)"
    by (simp only: set_sort)
  from scheduled_activity_durations [OF cs mem act] cs mem act show ?thesis by blast
qed


section \<open>Review sessions and preferences\<close>

text \<open>
  Claim C4 at a concrete input. The schedule is made on 2024-01-01 at 10:30 and a project
  is due on 2024-01-04, which is today + 3. The time of day is part of \<open>date\<close>, so the
  difference to the deadline's midnight is two days and a part: no review is emitted for
  today, and the day after, two calendar days before the deadline, gets the review
  labelled \<open>Intensive\<close>.
\<close>

theorem review_session_day_offset:
  "map_sum id strftime_ymd (add_days example_today 3) = Inr ''2024-01-04'' \<and>
   generate_review_sessions example_today [project_in_3_days] = Inr [] \<and>
   add_days example_today 1 = Inr (example_today\<lparr>dt_day := 2\<rparr>) \<and>
   generate_review_sessions (example_today\<lparr>dt_day := 2\<rparr>) [project_in_3_days] =
     Inr [review_activity project_in_3_days 1] \<and>
   a_activity (review_activity project_in_3_days 1) = emoji_open_book @ '' Intensive Review: Report''"
proof -
  have "add_days example_today 3 = Inr (example_today\<lparr>dt_day := 4\<rparr>)"
    by (simp add: add_days_numeral next_day_def example_today_def days_in_month_def)
  then have "map_sum id strftime_ymd (add_days example_today 3) = Inr ''2024-01-04''"
    by (simp add: strftime_ymd_def zfill_def str_nat.simps digit_char_def example_today_def
      char_of_def bit_Suc_0_iff)
  moreover have "a_activity (review_activity project_in_3_days 1) =
      emoji_open_book @ '' Intensive Review: Report''"
    by (simp add: review_activity_def project_in_3_days_def dict_get_def)
  ultimately show ?thesis
    using review_today example_tomorrow review_tomorrow by simp
qed

lemma daily_plan_isl:
  "isl (generate_daily_plan d w s st dls p) = isl (generate_review_sessions d dls)"
  by (simp add: generate_daily_plan_sorted split: sum.splits)

lemma schedule_days_isl:
  "isl (schedule_days t w s st dls p js acc) = isl (schedule_days t w s st' dls p js acc')"
proof (induction js arbitrary: acc acc')
  case Nil
  then show ?case by simp
next
  case (Cons j js)
  show ?case
  proof (cases "add_days t j")
    case (Inl e)
    then show ?thesis by simp
  next
    case (Inr day)
    show ?thesis
    proof (cases "dt_less day t")
      case True
      with Inr Cons.IH show ?thesis by (simp add: Let_def)
    next
      case False
      have same: "isl (generate_daily_plan day w s st dls p) = isl (generate_daily_plan day w s st' dls p)"
        by (simp add: daily_plan_isl)
      show ?thesis
      proof (cases "generate_daily_plan day w s st dls p")
        case (Inl e)
        with same obtain e' where "generate_daily_plan day w s st' dls p = Inl e'"
          by (cases "generate_daily_plan day w s st' dls p") auto
        with Inl Inr False show ?thesis by (simp add: Let_def)
      next
        case (Inr plan)
        with same obtain plan' where "generate_daily_plan day w s st' dls p = Inr plan'"
          by (cases "generate_daily_plan day w s st' dls p") auto
        with Inr \<open>add_days t j = Inr day\<close> False Cons.IH show ?thesis by (simp add: Let_def)
      qed
    qed
  qed
qed

lemma create_schedule_style_isl:
  "isl (create_schedule p (ud\<lparr>ud_study_style := x\<rparr>) today) =
   isl (create_schedule p (ud\<lparr>ud_study_style := y\<rparr>) today)"
  by (auto simp: create_schedule_def Let_def schedule_days_isl [where acc' = "[]"] split: sum.splits 
      intro: schedule_days_isl)


lemma format_14: "format_02d 14 = ''14''" and format_19: "format_02d 19 = ''19''"
  by (simp_all add: format_eval)

text \<open>
  Claim C2, as the code has it. A missing study style is read as \<open>pomodoro\<close>, a missing
  wakeup as 8 and a missing sleep as 23. The style \<open>pomodoro\<close> is handled by the first
  branch of the generator (two blocks of 120 minutes, and one of 60 minutes at 19:00 on
  weekdays); only a style other than \<open>pomodoro\<close> and \<open>focused\<close> reaches the else-branch
  with its four sessions. No study style is rejected: whether \<open>create_schedule\<close> raises
  does not depend on it. A wakeup or sleep value that \<open>int\<close> does not accept is raised
  as its error.
\<close>

theorem preference_defaults:
  "(ud_study_style ud = None \<longrightarrow>
      create_schedule p ud today = create_schedule p (ud\<lparr>ud_study_style := Some (PyStr ''pomodoro'')\<rparr>) today) \<and>
   (ud_wakeup ud = None \<longrightarrow>
      create_schedule p ud today = create_schedule p (ud\<lparr>ud_wakeup := Some (PyInt 8)\<rparr>) today) \<and>
   (ud_sleep ud = None \<longrightarrow>
      create_schedule p ud today = create_schedule p (ud\<lparr>ud_sleep := Some (PyInt 23)\<rparr>) today) \<and>
   map summary (generate_study_sessions w s (PyStr ''pomodoro'') d) =
     [(format_02d (w + 2) @ '':00'', ''study'', Some 120), (''14:00'', ''study'', Some 120)] @
     (if d < 5 then [(''19:00'', ''study'', Some 60)] else []) \<and>
   (st \<noteq> PyStr ''pomodoro'' \<and> st \<noteq> PyStr ''focused'' \<longrightarrow>
      map summary (generate_study_sessions w s st d) =
        [(format_02d (w + 2) @ '':00'', ''study'', Some 90), (''13:00'', ''study'', Some 60),
         (''16:00'', ''study'', Some 90), (''19:30'', ''study'', Some 45)]) \<and>
   isl (create_schedule p (ud\<lparr>ud_study_style := x\<rparr>) today) =
     isl (create_schedule p (ud\<lparr>ud_study_style := y\<rparr>) today) \<and>
   (py_int v = Inl e \<longrightarrow> create_schedule p (ud\<lparr>ud_wakeup := Some v\<rparr>) today = Inl e) \<and>
   (py_int (dict_get (ud_wakeup ud) (PyInt 8)) = Inr w \<and> py_int v = Inl e \<longrightarrow>
      create_schedule p (ud\<lparr>ud_sleep := Some v\<rparr>) today = Inl e)"
proof (intro conjI impI)
  assume "ud_study_style ud = None"
  then show "create_schedule p ud today =
      create_schedule p (ud\<lparr>ud_study_style := Some (PyStr ''pomodoro'')\<rparr>) today"
    by (simp add: create_schedule_def dict_get_def Let_def cong: sum.case_cong)
next
  assume "ud_wakeup ud = None"
  then show "create_schedule p ud today = create_schedule p (ud\<lparr>ud_wakeup := Some (PyInt 8)\<rparr>) today"
    by (simp add: create_schedule_def dict_get_def Let_def cong: sum.case_cong)
next
  assume "ud_sleep ud = None"
  then show "create_schedule p ud today = create_schedule p (ud\<lparr>ud_sleep := Some (PyInt 23)\<rparr>) today"
    by (simp add: create_schedule_def dict_get_def Let_def cong: sum.case_cong)
next
  show "map summary (generate_study_sessions w s (PyStr ''pomodoro'') d) =
     [(format_02d (w + 2) @ '':00'', ''study'', Some 120), (''14:00'', ''study'', Some 120)] @
     (if d < 5 then [(''19:00'', ''study'', Some 60)] else [])"
    by (simp add: generate_study_sessions_def mk_study_def mk_activity_def summary_def Let_def
        format_14 format_19)
next
  assume "st \<noteq> PyStr ''pomodoro'' \<and> st \<noteq> PyStr ''focused''"
  then show "map summary (generate_study_sessions w s st d) =
        [(format_02d (w + 2) @ '':00'', ''study'', Some 90), (''13:00'', ''study'', Some 60),
         (''16:00'', ''study'', Some 90), (''19:30'', ''study'', Some 45)]"
    by (simp add: generate_study_sessions_def mk_study_def mk_activity_def summary_def Let_def)
next
  show "isl (create_schedule p (ud\<lparr>ud_study_style := x\<rparr>) today) =
     isl (create_schedule p (ud\<lparr>ud_study_style := y\<rparr>) today)"
    by (rule create_schedule_style_isl)
next
  assume "py_int v = Inl e"
  then show "create_schedule p (ud\<lparr>ud_wakeup := Some v\<rparr>) today = Inl e"
    by (simp add: create_schedule_def dict_get_def Let_def cong: sum.case_cong)
next
  assume "py_int (dict_get (ud_wakeup ud) (PyInt 8)) = Inr w \<and> py_int v = Inl e"
  then show "create_schedule p (ud\<lparr>ud_sleep := Some v\<rparr>) today = Inl e"
    by (simp add: create_schedule_def dict_get_def Let_def cong: sum.case_cong)
qed

theorem preference_defaults_witness:
  "ud_study_style no_preferences = None \<and> ud_wakeup no_preferences = None \<and>
   ud_sleep no_preferences = None \<and>
   create_schedule () no_preferences example_today =
     create_schedule () (no_preferences\<lparr>ud_study_style := Some (PyStr ''pomodoro'')\<rparr>) example_today \<and>
   create_schedule () no_preferences example_today =
     create_schedule () (no_preferences\<lparr>ud_wakeup := Some (PyInt 8)\<rparr>) example_today \<and>
   create_schedule () no_preferences example_today =
     create_schedule () (no_preferences\<lparr>ud_sleep := Some (PyInt 23)\<rparr>) example_today \<and>
   PyStr ''flexible'' \<noteq> PyStr ''pomodoro'' \<and> PyStr ''flexible'' \<noteq> PyStr ''focused'' \<and>
   map summary (generate_study_sessions 8 23 (PyStr ''flexible'') 0) =
     [(format_02d (8 + 2) @ '':00'', ''study'', Some 90), (''13:00'', ''study'', Some 60),
      (''16:00'', ''study'', Some 90), (''19:30'', ''study'', Some 45)] \<and>
   py_int (PyStr ''early'') = Inl ValueError \<and>
   create_schedule () (no_preferences\<lparr>ud_wakeup := Some (PyStr ''early'')\<rparr>) example_today = Inl ValueError \<and>
   py_int (dict_get (ud_wakeup no_preferences) (PyInt 8)) = Inr 8 \<and>
   create_schedule () (no_preferences\<lparr>ud_sleep := Some (PyStr ''early'')\<rparr>) example_today = Inl ValueError"
proof -
  have none: "ud_study_style no_preferences = None" "ud_wakeup no_preferences = None"
    "ud_sleep no_preferences = None"
    by (simp_all add: no_preferences_def)
  have early: "py_int (PyStr ''early'') = Inl ValueError"
    by (simp add: int_of_str_def py_strip_def is_space_def is_digit_def chr_code_def)
  have w: "py_int (dict_get (ud_wakeup no_preferences) (PyInt 8)) = Inr 8"
    by (simp add: no_preferences_def dict_get_def)
  have flex: "PyStr ''flexible'' \<noteq> PyStr ''pomodoro'' \<and> PyStr ''flexible'' \<noteq> PyStr ''focused''"
    by simp
  note t = preference_defaults [of no_preferences "()" example_today 8 23 0 "PyStr ''flexible''"
      None None "PyStr ''early''" ValueError]
  from t none early w flex show ?thesis by blast
qed

text \<open>
  Against claim C2 as stated: with no preferences at all, the sessions of a Monday are
  the three blocks of the pomodoro branch, not the four sessions of the else-branch; and
  a wakeup preference that is not a number is rejected.
\<close>

theorem default_style_is_pomodoro_branch:
  "map summary (generate_study_sessions 8 23
      (dict_get (ud_study_style no_preferences) (PyStr ''pomodoro'')) 0) =
     [(''10:00'', ''study'', Some 120), (''14:00'', ''study'', Some 120), (''19:00'', ''study'', Some 60)] \<and>
   create_schedule () (no_preferences\<lparr>ud_wakeup := Some (PyStr ''early'')\<rparr>) example_today =
     Inl ValueError"
  by (simp add: no_preferences_def dict_get_def generate_study_sessions_def mk_study_def
      mk_activity_def summary_def Let_def format_eval create_schedule_def int_of_str_def py_strip_def
      is_space_def is_digit_def chr_code_def)


section \<open>Classification of deadline sentences\<close>

lemma py_in_iff: "py_in w s \<longleftrightarrow> (\<exists>before after. s = before @ w @ after)"
proof (induction s)
  case Nil
  then show ?case by auto
next
  case (Cons c cs)
  have "take (length w) (c # cs) = w \<longleftrightarrow> (\<exists>after. c # cs = w @ after)"
    by (metis append_eq_conv_conj append_take_drop_id)
  moreover have "(\<exists>before after. c # cs = before @ w @ after) \<longleftrightarrow>
      (\<exists>after. c # cs = w @ after) \<or> (\<exists>before after. cs = before @ w @ after)"
  proof
    assume "\<exists>before after. c # cs = before @ w @ after"
    then obtain before after where eq: "c # cs = before @ w @ after" by blast
    show "(\<exists>after. c # cs = w @ after) \<or> (\<exists>before after. cs = before @ w @ after)"
    proof (cases before)
      case Nil
      with eq show ?thesis by auto
    next
      case (Cons b bs)
      with eq have "cs = bs @ w @ after" by simp
      then show ?thesis by blast
    qed
  next
    assume "(\<exists>after. c # cs = w @ after) \<or> (\<exists>before after. cs = before @ w @ after)"
    then show "\<exists>before after. c # cs = before @ w @ after"
    proof
      assume "\<exists>after. c # cs = w @ after"
      then obtain after where "c # cs = [] @ w @ after" by auto
      then show ?thesis by blast
    next
      assume "\<exists>before after. cs = before @ w @ after"
      then obtain before after where "c # cs = (c # before) @ w @ after" by auto
      then show ?thesis by blast
    qed
  qed
  ultimately show ?case using Cons.IH by simp
qed

lemma py_in_lower: "py_in word (py_lower sentence) \<longleftrightarrow> mentions sentence word"
proof
  assume "py_in word (py_lower sentence)"
  then obtain before after where "map lower_char sentence = before @ word @ after"
    by (auto simp: py_in_iff py_lower_def)
  then have "\<exists>b r. sentence = b @ r \<and> before = map lower_char b \<and> word @ after = map lower_char r"
    by (simp only: map_eq_append_conv)
  then obtain b r where s: "sentence = b @ r" and r: "map lower_char r = word @ after"
    by auto
  from r have "\<exists>w a. r = w @ a \<and> word = map lower_char w \<and> after = map lower_char a"
    by (simp only: map_eq_append_conv)
  then obtain w a where "r = w @ a" "map lower_char w = word"
    by auto
  with s show "mentions sentence word" unfolding mentions_def py_lower_def by blast
next
  assume "mentions sentence word"
  then obtain before w after where "sentence = before @ w @ after" "py_lower w = word"
    by (auto simp: mentions_def)
  then have "py_lower sentence = py_lower before @ word @ py_lower after"
    by (auto simp: py_lower_def)
  then show "py_in word (py_lower sentence)" by (auto simp: py_in_iff)
qed

lemmas lower_eval = py_lower_def lower_char_def chr_code_def is_ascii_upper_def char_of_def
  bit_Suc_0_iff

text \<open>
  Claim C6. \<open>determine_deadline_type\<close> looks for the words of five groups in a fixed
  order, in any case and anywhere in the sentence, and returns the category of the first
  group of which a word occurs: exam, test, final, midterm give \<open>exam\<close>; then assignment,
  homework, hw give \<open>assignment\<close>; then project, paper give \<open>project\<close>; then quiz; then
  presentation, present; \<open>assignment\<close> when no word occurs. The sentence
  \<open>Midterm exam and final project due\<close> holds an exam word and a project word and is
  classified as \<open>exam\<close>.
\<close>

theorem determine_deadline_type_priority:
  "determine_deadline_type sentence =
     (if mentions sentence ''exam'' \<or> mentions sentence ''test'' \<or> mentions sentence ''final'' \<or>
         mentions sentence ''midterm'' then ''exam''
      else if mentions sentence ''assignment'' \<or> mentions sentence ''homework'' \<or>
         mentions sentence ''hw'' then ''assignment''
      else if mentions sentence ''project'' \<or> mentions sentence ''paper'' then ''project''
      else if mentions sentence ''quiz'' then ''quiz''
      else if mentions sentence ''presentation'' \<or> mentions sentence ''present'' then ''presentation''
      else ''assignment'') \<and>
   mentions ''Midterm exam and final project due'' ''exam'' \<and>
   mentions ''Midterm exam and final project due'' ''project'' \<and>
   determine_deadline_type ''Midterm exam and final project due'' = ''exam''"
proof (intro conjI)
  show "determine_deadline_type sentence =
     (if mentions sentence ''exam'' \<or> mentions sentence ''test'' \<or> mentions sentence ''final'' \<or>
         mentions sentence ''midterm'' then ''exam''
      else if mentions sentence ''assignment'' \<or> mentions sentence ''homework'' \<or>
         mentions sentence ''hw'' then ''assignment''
      else if mentions sentence ''project'' \<or> mentions sentence ''paper'' then ''project''
      else if mentions sentence ''quiz'' then ''quiz''
      else if mentions sentence ''presentation'' \<or> mentions sentence ''present'' then ''presentation''
      else ''assignment'')"
    unfolding determine_deadline_type_def Let_def list_ex_Cons_iff list_ex_Nil_iff py_in_lower by simp
  have low: "py_lower ''Midterm exam and final project due'' = ''midterm exam and final project due''"
    by (simp add: lower_eval)
  have "py_in ''exam'' (py_lower ''Midterm exam and final project due'')"
    unfolding low by simp
  then show ex: "mentions ''Midterm exam and final project due'' ''exam''"
    by (simp only: py_in_lower)
  have "py_in ''project'' (py_lower ''Midterm exam and final project due'')"
    unfolding low by simp
  then show "mentions ''Midterm exam and final project due'' ''project''"
    by (simp only: py_in_lower)
  have "py_in ''exam'' (py_lower ''Midterm exam and final project due'')"
    unfolding low by simp
  then show "determine_deadline_type ''Midterm exam and final project due'' = ''exam''"
    by (simp only: determine_deadline_type_def Let_def list_ex_Cons_iff list_ex_Nil_iff) simp
qed

section \<open>What the date normalizer returns\<close>

lemma strptime_Inr:
  assumes "strptime s fmt = Inr d"
  shows "\<exists>y m dd. d = midnight y m dd \<and> valid_date y m dd"
  using assms
  by (auto simp: strptime_def Let_def split: option.splits list.splits if_splits prod.splits)

lemma length_str_nat_gt: "10 ^ k \<le> n \<Longrightarrow> k < length (str_nat n)"
proof (induction n arbitrary: k rule: str_nat.induct)
  case (1 n)
  show ?case
  proof (cases k)
    case 0
    then show ?thesis using str_nat_nonempty [of n] by simp
  next
    case (Suc j)
    with "1.prems" have ge: "10 * 10 ^ j \<le> n" by simp
    moreover have "(1::nat) \<le> 10 ^ j" by simp
    ultimately have n10: "\<not> n < 10" by linarith
    from ge have "10 ^ j \<le> n div 10" by simp
    from "1.IH" [OF n10 this] have "j < length (str_nat (n div 10))" .
    with n10 Suc show ?thesis by (subst str_nat.simps) simp
  qed
qed

lemma length_str_nat_4: "length (str_nat y) = 4 \<longleftrightarrow> 1000 \<le> y \<and> y \<le> 9999"
proof
  assume l: "length (str_nat y) = 4"
  have "1000 \<le> y"
  proof (rule ccontr)
    assume "\<not> 1000 \<le> y"
    then have "y < 10 ^ 3" by simp
    from length_str_nat_le [OF this] l show False by simp
  qed
  moreover have "y \<le> 9999"
  proof (rule ccontr)
    assume "\<not> y \<le> 9999"
    then have "10 ^ 4 \<le> y" by simp
    from length_str_nat_gt [OF this] l show False by simp
  qed
  ultimately show "1000 \<le> y \<and> y \<le> 9999" by simp
next
  assume b: "1000 \<le> y \<and> y \<le> 9999"
  then have "10 ^ 3 \<le> y" "y < 10 ^ 4" by simp_all
  from length_str_nat_gt [OF this(1)] length_str_nat_le [OF this(2)]
  show "length (str_nat y) = 4" by simp
qed

text \<open>A date is written in the form \<open>YYYY-MM-DD\<close> exactly when its year has four digits.\<close>

lemma strftime_canonical:
  assumes "valid_date y m dd"
  shows "is_canonical_date (strftime_ymd (midnight y m dd)) \<longleftrightarrow> 1000 \<le> y"
proof -
  from valid_date_bounds [OF assms] have b: "y \<le> 9999" "m \<le> 99" "dd \<le> 99" by simp_all
  let ?Y = "str_nat y" and ?M = "zfill 2 (str_nat m)" and ?D = "zfill 2 (str_nat dd)"
  have len: "length ?M = 2" "length ?D = 2"
    using b by (simp_all add: length_zfill2)
  have r: "strftime_ymd (midnight y m dd) = ?Y @ CHR ''-'' # ?M @ CHR ''-'' # ?D"
    by (simp add: strftime_ymd_def midnight_def)
  have dig: "list_all is_digit (?Y @ ?M @ ?D)"
    using digits_str_nat [of y] digits_zfill [of 2 m] digits_zfill [of 2 dd]
    by (auto simp: list_all_iff)
  show ?thesis
  proof
    assume "is_canonical_date (strftime_ymd (midnight y m dd))"
    then have "length (?Y @ CHR ''-'' # ?M @ CHR ''-'' # ?D) = 10"
      unfolding is_canonical_date_def r by simp
    with len have "length ?Y = 4" by simp
    then show "1000 \<le> y" by (simp add: length_str_nat_4)
  next
    assume "1000 \<le> y"
    with b have ly: "length ?Y = 4" by (simp add: length_str_nat_4)
    show "is_canonical_date (strftime_ymd (midnight y m dd))"
      unfolding is_canonical_date_def r
      using ly len dig assms
      by (simp add: nth_append nat_of_digits_zfill nat_of_digits_str_nat)
  qed
qed

lemma try_date_formats_Inr: "\<exists>res. try_date_formats now s fmts = Inr res"
proof (induction fmts)
  case Nil
  then show ?case by simp
next
  case (Cons fmt fmts)
  have "e = ValueError" if "parse_with_format now s fmt = Inl e" for e
    using that
    by (auto simp: parse_with_format_def strptime_def Let_def
        split: option.splits list.splits if_splits prod.splits)
  with Cons show ?case by (auto split: sum.splits)
qed

lemma try_date_formats_None:
  "try_date_formats now s fmts = Inr None \<longleftrightarrow> (\<forall>fmt \<in> set fmts. isl (parse_with_format now s fmt))"
proof (induction fmts)
  case Nil
  then show ?case by simp
next
  case (Cons fmt fmts)
  show ?case
  proof (cases "parse_with_format now s fmt")
    case (Inl e)
    moreover from try_date_formats_Inr [of now s "fmt # fmts"] Inl have "e = ValueError"
      by (auto split: if_splits)
    ultimately show ?thesis using Cons by simp
  next
    case (Inr d)
    then show ?thesis by simp
  qed
qed

lemma try_date_formats_Some:
  "try_date_formats now s fmts = Inr (Some r) \<Longrightarrow>
   \<exists>fmt d. fmt \<in> set fmts \<and> parse_with_format now s fmt = Inr d \<and> r = strftime_ymd d"
proof (induction fmts)
  case Nil
  then show ?case by simp
next
  case (Cons fmt fmts)
  then show ?case by (cases "parse_with_format now s fmt") (auto split: if_splits)
qed

lemma validate_Some_date:
  assumes "validate_and_format_date now s = Some r"
  shows "\<exists>y m dd. valid_date y m dd \<and> r = strftime_ymd (midnight y m dd) \<and>
    (is_canonical_date r \<longleftrightarrow> 1000 \<le> y)"
proof -
  from assms have "try_date_formats now s date_formats = Inr (Some r)"
    by (auto simp: validate_and_format_date_def split: sum.splits)
  from try_date_formats_Some [OF this] obtain fmt d
    where "parse_with_format now s fmt = Inr d" "r = strftime_ymd d" by blast
  then obtain t f where "strptime t f = Inr d" "r = strftime_ymd d"
    by (auto simp: parse_with_format_def Let_def split: if_splits)
  with strptime_Inr [of t f d] obtain y m dd where "valid_date y m dd"
    "r = strftime_ymd (midnight y m dd)" by auto
  with strftime_canonical [of y m dd] show ?thesis by blast
qed

lemma validate_and_format_date_None:
  "validate_and_format_date now date_str = None \<longleftrightarrow>
     (\<forall>fmt \<in> set date_formats. isl (parse_with_format now date_str fmt))"
proof -
  from try_date_formats_Inr [of now date_str date_formats]
  obtain res where res: "try_date_formats now date_str date_formats = Inr res" by blast
  then have "validate_and_format_date now date_str = None \<longleftrightarrow>
      try_date_formats now date_str date_formats = Inr None"
    by (simp add: validate_and_format_date_def)
  then show ?thesis by (simp only: try_date_formats_None)
qed

lemma str_nat_2024: "str_nat 2024 = ''2024''"
  by (simp add: str_nat.simps digit_char_def char_of_def bit_Suc_0_iff)

lemma parse_example_today:
  "parse_with_format example_today s fmt =
     (if \<not> py_in ''%Y'' fmt then strptime (s @ '', 2024'') (fmt @ '', %Y'') else strptime s fmt)"
  by (simp add: parse_with_format_def example_today_def str_nat_2024)

lemma april_31_matches:
  "compile_format ''%m/%d/%Y'' = Some [Dir_m, Lit CHR ''/'', Dir_d, Lit CHR ''/'', Dir_Y] \<and>
   match_directives [Dir_m, Lit CHR ''/'', Dir_d, Lit CHR ''/'', Dir_Y] ''04/31/2024'' (None, None, None) =
     [((Some 2024, Some 4, Some 31), [])]"
  by code_simp

lemma april_31_is_no_date: "validate_and_format_date example_today ''04/31/2024'' = None"
  unfolding validate_and_format_date_def date_formats_def try_date_formats.simps parse_example_today
  by code_simp

lemma next_week_is_no_date: "validate_and_format_date example_today ''next week'' = None"
  unfolding validate_and_format_date_def date_formats_def try_date_formats.simps parse_example_today
  by code_simp

lemma march_15_parses: "validate_and_format_date example_today ''3/15'' = Some ''2024-03-15''"
  unfolding validate_and_format_date_def date_formats_def try_date_formats.simps parse_example_today
  by code_simp

lemma parse_year_format:
  "py_in ''%Y'' fmt \<Longrightarrow> parse_with_format now s fmt = strptime s fmt"
  by (simp add: parse_with_format_def)

lemma strptime_year_999: "strptime ''01/01/0999'' ''%m/%d/%Y'' = Inr (midnight 999 1 1)"
  by code_simp

lemma strptime_year_5: "strptime ''01/01/0005'' ''%m/%d/%Y'' = Inr (midnight 5 1 1)"
  by code_simp

lemma strptime_year_1999: "strptime ''01/01/1999'' ''%m/%d/%Y'' = Inr (midnight 1999 1 1)"
  by code_simp

lemma strftime_short_years:
  "strftime_ymd (midnight 999 1 1) = ''999-01-01''"
  "strftime_ymd (midnight 5 1 1) = ''5-01-01''"
  "strftime_ymd (midnight 1999 1 1) = ''1999-01-01''"
  by (simp_all add: strftime_ymd_def midnight_def zfill_def str_nat.simps digit_char_def
      char_of_def bit_Suc_0_iff)

text \<open>
  Claim C9 at concrete inputs. \<open>validate_and_format_date\<close> returns \<open>None\<close> for a text that
  no format matches and for \<open>04/31/2024\<close>, which the first format matches with day 31 in
  April. For \<open>01/01/0999\<close> and \<open>01/01/0005\<close>, which the first format reads as the years 999
  and 5, it returns \<open>999-01-01\<close> and \<open>5-01-01\<close>, whatever the current date: the year is
  written with as many digits as it has, so the result is not of the form \<open>YYYY-MM-DD\<close>.
  With the year 1999 it is.
\<close>

theorem validate_and_format_date_short_year:
  "validate_and_format_date now ''01/01/0999'' = Some ''999-01-01'' \<and>
   \<not> is_canonical_date ''999-01-01'' \<and>
   validate_and_format_date now ''01/01/0005'' = Some ''5-01-01'' \<and>
   \<not> is_canonical_date ''5-01-01'' \<and>
   validate_and_format_date now ''01/01/1999'' = Some ''1999-01-01'' \<and>
   is_canonical_date ''1999-01-01'' \<and>
   validate_and_format_date example_today ''04/31/2024'' = None \<and>
   validate_and_format_date example_today ''next week'' = None"
proof (intro conjI)
  have y: "py_in ''%Y'' ''%m/%d/%Y''" by simp
  show "validate_and_format_date now ''01/01/0999'' = Some ''999-01-01''"
    by (simp add: validate_and_format_date_def date_formats_def parse_year_format [OF y]
        strptime_year_999 strftime_short_years del: One_nat_def)
  show "validate_and_format_date now ''01/01/0005'' = Some ''5-01-01''"
    by (simp add: validate_and_format_date_def date_formats_def parse_year_format [OF y]
        strptime_year_5 strftime_short_years del: One_nat_def)
  show "validate_and_format_date now ''01/01/1999'' = Some ''1999-01-01''"
    by (simp add: validate_and_format_date_def date_formats_def parse_year_format [OF y]
        strptime_year_1999 strftime_short_years del: One_nat_def)
  show "\<not> is_canonical_date ''999-01-01''" by (simp add: is_canonical_date_def)
  show "\<not> is_canonical_date ''5-01-01''" by (simp add: is_canonical_date_def)
  have "valid_date 1999 1 1" by (simp add: valid_date_def days_in_month_def)
  from strftime_canonical [OF this] show "is_canonical_date ''1999-01-01''"
    by (simp add: strftime_short_years del: One_nat_def)
  show "validate_and_format_date example_today ''04/31/2024'' = None"
    by (rule april_31_is_no_date)
  show "validate_and_format_date example_today ''next week'' = None"
    by (rule next_week_is_no_date)
qed

section \<open>Dates without a year\<close>

lemma match_classes_split:
  "(m, r) \<in> set (match_classes ps s) \<Longrightarrow> s = m @ r \<and> list_all2 (\<lambda>p c. p c) ps m"
proof (induction ps s arbitrary: m rule: match_classes.induct)
  case (1 s)
  then show ?case by simp
next
  case (2 p ps)
  then show ?case by simp
next
  case (3 p ps c cs)
  from "3.prems" obtain m' where "p c" "m = c # m'" "(m', r) \<in> set (match_classes ps cs)"
    by (auto split: if_splits)
  with "3.IH" [of m'] show ?case by simp
qed

lemma match_classes_suffix: "(m, r) \<in> set (match_classes ps s) \<Longrightarrow> suffix r s"
  by (auto dest: match_classes_split simp: suffix_def)

lemma number_of_suffix:
  "(v, r) \<in> set (map number_of ms) \<Longrightarrow> \<exists>m. (m, r) \<in> set ms"
  by (auto simp: number_of_def)

lemma match_m_suffix:
  assumes "(v, r) \<in> set (match_m s)"
  shows "suffix r s"
proof -
  from assms obtain ps m where "(m, r) \<in> set (match_classes ps s)"
    unfolding match_m_def by (auto simp: number_of_def)
  then show ?thesis by (rule match_classes_suffix)
qed

lemma match_d_suffix:
  assumes "(v, r) \<in> set (match_d s)"
  shows "suffix r s"
proof -
  from assms obtain ps m where "(m, r) \<in> set (match_classes ps s)"
    unfolding match_d_def by (auto simp: number_of_def)
  then show ?thesis by (rule match_classes_suffix)
qed

lemma match_Y_split:
  assumes "(v, r) \<in> set (match_Y s)"
  shows "\<exists>m. s = m @ r \<and> length m = 4 \<and> (\<forall>c \<in> set m. is_digit c) \<and> v = nat_of_digits 0 m"
proof -
  from assms obtain m where m: "(m, r) \<in> set (match_classes [is_digit, is_digit, is_digit, is_digit] s)"
    and v: "v = nat_of_digits 0 (filter is_digit m)"
    by (auto simp: match_Y_def number_of_def)
  from match_classes_split [OF m] have s: "s = m @ r"
    and l: "list_all2 (\<lambda>p c. p c) [is_digit, is_digit, is_digit, is_digit] m" by simp_all
  from l have len: "length m = 4" by (auto dest: list_all2_lengthD)
  from l have dig: "\<forall>c \<in> set m. is_digit c"
    by (auto simp: list_all2_Cons1)
  then have "filter is_digit m = m" by (simp add: filter_id_conv)
  with s len dig v show ?thesis by auto
qed

lemma match_Y_suffix: "(v, r) \<in> set (match_Y s) \<Longrightarrow> suffix r s"
  by (auto dest: match_Y_split simp: suffix_def)

lemma match_name_suffix: "(v, r) \<in> set (match_name names s) \<Longrightarrow> suffix r s"
  unfolding match_name_def match_literal_def by (auto dest: match_classes_suffix)

lemma match_literal_split:
  "(m, r) \<in> set (match_literal [c] s) \<Longrightarrow> \<exists>x. s = x # r \<and> lower_char x = lower_char c"
  unfolding match_literal_def by (auto dest!: match_classes_split simp: list_all2_Cons1)

lemma take_takeWhile:
  "k \<le> length (takeWhile P s) \<Longrightarrow> take k s = take k (takeWhile P s)"
proof (induction s arbitrary: k)
  case Nil
  then show ?case by simp
next
  case (Cons c cs)
  then show ?case by (cases k) (auto split: if_splits)
qed

lemma match_spaces_split:
  assumes "r \<in> set (match_spaces s)"
  shows "\<exists>ws. s = ws @ r \<and> ws \<noteq> [] \<and> (\<forall>c \<in> set ws. is_space c)"
proof -
  from assms obtain k where k: "1 \<le> k" "k \<le> length (takeWhile is_space s)" and r: "r = drop k s"
    by (auto simp: match_spaces_def)
  have tk: "take k s = take k (takeWhile is_space s)"
    using k(2) by (rule take_takeWhile)
  have "\<forall>c \<in> set (take k s). is_space c"
    unfolding tk by (auto dest!: in_set_takeD dest: set_takeWhileD)
  moreover have "take k s \<noteq> []" using k by (auto simp: take_eq_Nil)
  moreover have "s = take k s @ r" using r by simp
  ultimately show ?thesis by blast
qed

lemma match_spaces_suffix: "r \<in> set (match_spaces s) \<Longrightarrow> suffix r s"
  by (auto dest: match_spaces_split simp: suffix_def)

lemma suffix_step: "suffix r s' \<Longrightarrow> suffix s' s \<Longrightarrow> suffix r s"
  by (rule suffix_order.trans)

lemma match_directives_suffix:
  "(f', r) \<in> set (match_directives ds s f) \<Longrightarrow> suffix r s"
proof (induction ds s f arbitrary: f' r rule: match_directives.induct)
  case (1 s f)
  then show ?case by simp
next
  case (2 ds s y m d)
  from "2.prems" obtain v s' where "(v, s') \<in> set (match_Y s)"
    "(f', r) \<in> set (match_directives ds s' (Some v, m, d))" by auto
  with "2.IH" [of "(v, s')" v s'] match_Y_suffix show ?case by (blast intro: suffix_step)
next
  case (3 ds s y m d)
  from "3.prems" obtain v s' where "(v, s') \<in> set (match_m s)"
    "(f', r) \<in> set (match_directives ds s' (y, Some v, d))" by auto
  with "3.IH" [of "(v, s')" v s'] match_m_suffix show ?case by (blast intro: suffix_step)
next
  case (4 ds s y m d)
  from "4.prems" obtain v s' where "(v, s') \<in> set (match_name month_names s)"
    "(f', r) \<in> set (match_directives ds s' (y, Some v, d))" by auto
  with "4.IH" [of "(v, s')" v s'] match_name_suffix show ?case by (blast intro: suffix_step)
next
  case (5 ds s y m d)
  from "5.prems" obtain v s' where "(v, s') \<in> set (match_name month_abbrs s)"
    "(f', r) \<in> set (match_directives ds s' (y, Some v, d))" by auto
  with "5.IH" [of "(v, s')" v s'] match_name_suffix show ?case by (blast intro: suffix_step)
next
  case (6 ds s y m d)
  from "6.prems" obtain v s' where "(v, s') \<in> set (match_d s)"
    "(f', r) \<in> set (match_directives ds s' (y, m, Some v))" by auto
  with "6.IH" [of "(v, s')" v s'] match_d_suffix show ?case by (blast intro: suffix_step)
next
  case (7 c ds s f)
  from "7.prems" obtain v s' where vs: "(v, s') \<in> set (match_literal [c] s)"
    "(f', r) \<in> set (match_directives ds s' f)" by auto
  from vs(1) have "suffix s' s" by (auto dest: match_literal_split simp: suffix_def)
  with "7.IH" [of "(v, s')" v s'] vs show ?case by (blast intro: suffix_step)
next
  case (8 ds s f)
  from "8.prems" obtain s' where "s' \<in> set (match_spaces s)"
    "(f', r) \<in> set (match_directives ds s' f)" by auto
  with "8.IH" [of s'] match_spaces_suffix show ?case by (blast intro: suffix_step)
qed

lemma concat_map_concat:
  "concat (map g (concat (map h xs))) = concat (map (\<lambda>x. concat (map g (h x))) xs)"
  by (induction xs) simp_all

lemma concat_map_cong:
  "(\<And>x. x \<in> set xs \<Longrightarrow> f x = g x) \<Longrightarrow> concat (map f xs) = concat (map g xs)"
  by (induction xs) simp_all

lemma match_directives_append:
  "match_directives (ds1 @ ds2) s f =
     concat (map (\<lambda>(f', r). match_directives ds2 r f') (match_directives ds1 s f))"
proof (induction ds1 s f rule: match_directives.induct)
  case (1 s f)
  then show ?case by simp
next
  case (2 ds s y m d)
  show ?case
    unfolding append_Cons match_directives.simps concat_map_concat
    by (rule concat_map_cong) (use "2.IH" in auto)
next
  case (3 ds s y m d)
  show ?case
    unfolding append_Cons match_directives.simps concat_map_concat
    by (rule concat_map_cong) (use "3.IH" in auto)
next
  case (4 ds s y m d)
  show ?case
    unfolding append_Cons match_directives.simps concat_map_concat
    by (rule concat_map_cong) (use "4.IH" in auto)
next
  case (5 ds s y m d)
  show ?case
    unfolding append_Cons match_directives.simps concat_map_concat
    by (rule concat_map_cong) (use "5.IH" in auto)
next
  case (6 ds s y m d)
  show ?case
    unfolding append_Cons match_directives.simps concat_map_concat
    by (rule concat_map_cong) (use "6.IH" in auto)
next
  case (7 c ds s f)
  show ?case
    unfolding append_Cons match_directives.simps concat_map_concat
    by (rule concat_map_cong) (use "7.IH" in auto)
next
  case (8 ds s f)
  show ?case
    unfolding append_Cons match_directives.simps concat_map_concat
    by (rule concat_map_cong) (use "8.IH" in auto)
qed

lemma space_not_digit: "is_space c \<Longrightarrow> \<not> is_digit c"
  by (auto simp: is_space_def is_digit_def Let_def)

lemma trailing_digits_unique:
  assumes "p @ w # m = q @ v # n"
    and "\<forall>c \<in> set m. is_digit c" "\<not> is_digit w"
    and "\<forall>c \<in> set n. is_digit c" "\<not> is_digit v"
  shows "m = n"
proof -
  have "takeWhile is_digit (rev (p @ w # m)) = rev m"
    using assms(2,3) by (simp add: takeWhile_append2 takeWhile_tail)
  moreover have "takeWhile is_digit (rev (q @ v # n)) = rev n"
    using assms(4,5) by (simp add: takeWhile_append2 takeWhile_tail)
  ultimately have "rev m = rev n" using assms(1) by simp
  then show ?thesis by simp
qed

text \<open>The year read by a format that ends in \<open>, %Y\<close> from a text that ends in a comma,
  a blank and a number is that number.\<close>

lemma year_tail_split:
  assumes "((yy, mo, dd), r) \<in> set (match_directives [Lit CHR '','', Spaces, Dir_Y] r1 (y1, m1, d1))"
  shows "\<exists>v r2 r3 n. (v, r2) \<in> set (match_literal '','' r1) \<and> r3 \<in> set (match_spaces r2) \<and>
    (n, r) \<in> set (match_Y r3) \<and> yy = Some n \<and> mo = m1 \<and> dd = d1"
  using assms by auto

lemma year_of_appended:
  assumes "((yy, mo, dd), []) \<in> set (match_directives (ds0 @ [Lit CHR '','', Spaces, Dir_Y])
      (s @ '', '' @ str_nat y) f)"
  shows "yy = Some y \<and> length (str_nat y) = 4"
proof -
  let ?input = "s @ '', '' @ str_nat y"
  let ?tail = "[Lit CHR '','', Spaces, Dir_Y]"
  from assms have "((yy, mo, dd), []) \<in>
      (\<Union>x \<in> set (match_directives ds0 ?input f). set (case x of (f', r) \<Rightarrow> match_directives ?tail r f'))"
    unfolding match_directives_append by simp
  then obtain x where x: "x \<in> set (match_directives ds0 ?input f)"
    and tx: "((yy, mo, dd), []) \<in> set (case x of (f', r) \<Rightarrow> match_directives ?tail r f')"
    by blast
  obtain y1 m1 d1 r1 where xe: "x = ((y1, m1, d1), r1)" by (cases x) auto
  from x xe have r1: "((y1, m1, d1), r1) \<in> set (match_directives ds0 ?input f)" by simp
  from tx xe have "((yy, mo, dd), []) \<in> set (match_directives ?tail r1 (y1, m1, d1))" by simp
  from year_tail_split [OF this] obtain v r2 r3 n where r2: "(v, r2) \<in> set (match_literal '','' r1)"
    and r3: "r3 \<in> set (match_spaces r2)" and n: "(n, []) \<in> set (match_Y r3)" and yy: "yy = Some n"
    by blast
  from match_Y_split [OF n] have dig3: "\<forall>c \<in> set r3. is_digit c" and n3: "n = nat_of_digits 0 r3"
    and len3: "length r3 = 4"
    by auto
  from match_spaces_split [OF r3] obtain ws where ws: "r2 = ws @ r3" "ws \<noteq> []" "\<forall>c \<in> set ws. is_space c"
    by blast
  from match_literal_split [OF r2] obtain c where c: "r1 = c # r2" by blast
  from match_directives_suffix [OF r1] obtain p1 where p1: "?input = p1 @ r1"
    by (auto simp: suffix_def)
  have "ws = butlast ws @ [last ws]" using ws(2) by simp
  then have "r2 = butlast ws @ last ws # r3" using ws(1) by (metis append.assoc append_Cons append_Nil)
  with p1 c have "?input = (p1 @ c # butlast ws) @ last ws # r3" by simp
  moreover have "?input = (s @ '','') @ CHR '' '' # str_nat y" by simp
  ultimately have eq: "(p1 @ c # butlast ws) @ last ws # r3 = (s @ '','') @ CHR '' '' # str_nat y"
    by simp
  have nd1: "\<not> is_digit (last ws)" using ws(2,3) by (simp add: space_not_digit)
  have nd2: "\<not> is_digit CHR '' ''" by (simp add: is_digit_def chr_code_def)
  have digs: "\<forall>c \<in> set (str_nat y). is_digit c" by (rule digits_str_nat)
  from trailing_digits_unique [OF eq dig3 nd1 digs nd2] have "r3 = str_nat y" .
  with n3 yy len3 show ?thesis by (simp add: nat_of_digits_str_nat)
qed

lemma yearless_formats:
  "compile_format (''%m/%d'' @ '', %Y'') = Some ([Dir_m, Lit CHR ''/'', Dir_d] @ [Lit CHR '','', Spaces, Dir_Y])"
  "compile_format (''%B %d'' @ '', %Y'') = Some ([Dir_B, Spaces, Dir_d] @ [Lit CHR '','', Spaces, Dir_Y])"
  "compile_format (''%b %d'' @ '', %Y'') = Some ([Dir_b, Spaces, Dir_d] @ [Lit CHR '','', Spaces, Dir_Y])"
  by (simp_all add: is_space_def chr_code_def)

lemma year_formats:
  "py_in ''%Y'' ''%m/%d/%Y''" "py_in ''%Y'' ''%m-%d-%Y''" "py_in ''%Y'' ''%Y-%m-%d''"
  "py_in ''%Y'' ''%B %d, %Y''" "py_in ''%Y'' ''%d %B %Y''" "py_in ''%Y'' ''%b %d, %Y''"
  "py_in ''%Y'' ''%d %b %Y''" "\<not> py_in ''%Y'' ''%m/%d''" "\<not> py_in ''%Y'' ''%B %d''"
  "\<not> py_in ''%Y'' ''%b %d''"
  by simp_all

lemma yearless_date_formats:
  "filter (\<lambda>f. \<not> py_in ''%Y'' f) date_formats = [''%m/%d'', ''%B %d'', ''%b %d'']"
  by (simp add: date_formats_def)

lemma strptime_year_of_appended:
  assumes "strptime (s @ '', '' @ str_nat y) fmt = Inr d"
    and "compile_format fmt = Some (ds0 @ [Lit CHR '','', Spaces, Dir_Y])"
  shows "dt_year d = y \<and> valid_date y (dt_month d) (dt_day d) \<and> length (str_nat y) = 4"
proof -
  let ?ms = "match_directives (ds0 @ [Lit CHR '','', Spaces, Dir_Y]) (s @ '', '' @ str_nat y)
    (None, None, None)"
  from assms obtain yy mo dd rest where hd: "?ms = ((yy, mo, dd), []) # rest"
    and d: "d = midnight (case yy of None \<Rightarrow> 1900 | Some v \<Rightarrow> v) (case mo of None \<Rightarrow> 1 | Some v \<Rightarrow> v)
        (case dd of None \<Rightarrow> 1 | Some v \<Rightarrow> v)"
    and v: "valid_date (case yy of None \<Rightarrow> 1900 | Some v \<Rightarrow> v) (case mo of None \<Rightarrow> 1 | Some v \<Rightarrow> v)
        (case dd of None \<Rightarrow> 1 | Some v \<Rightarrow> v)"
    by (auto simp: strptime_def Let_def split: list.splits if_splits prod.splits)
  from hd have "((yy, mo, dd), []) \<in> set ?ms" by simp
  from year_of_appended [OF this] have "yy = Some y" "length (str_nat y) = 4" by simp_all
  with d v show ?thesis by (simp add: midnight_def)
qed

lemma parse_yearless:
  assumes "fmt \<in> set date_formats" "\<not> py_in ''%Y'' fmt" "parse_with_format now s fmt = Inr d"
  shows "dt_year d = dt_year now \<and> valid_date (dt_year now) (dt_month d) (dt_day d) \<and>
    length (str_nat (dt_year now)) = 4"
proof -
  from assms(1,2) have "fmt \<in> set (filter (\<lambda>f. \<not> py_in ''%Y'' f) date_formats)" by simp
  then have "fmt = ''%m/%d'' \<or> fmt = ''%B %d'' \<or> fmt = ''%b %d''"
    unfolding yearless_date_formats by simp
  then obtain ds0 where "compile_format (fmt @ '', %Y'') = Some (ds0 @ [Lit CHR '','', Spaces, Dir_Y])"
    using yearless_formats by blast
  moreover from assms(2,3) have "strptime (s @ '', '' @ str_nat (dt_year now)) (fmt @ '', %Y'') = Inr d"
    by (simp add: parse_with_format_def Let_def)
  ultimately show ?thesis by (rule strptime_year_of_appended [rotated])
qed

lemma validate_yearless:
  assumes "yearless date_str" and "validate_and_format_date now date_str = Some r"
  shows "take 4 r = str_nat (dt_year now)"
proof -
  from assms(2) have "try_date_formats now date_str date_formats = Inr (Some r)"
    by (auto simp: validate_and_format_date_def split: sum.splits)
  from try_date_formats_Some [OF this] obtain fmt d
    where fmt: "fmt \<in> set date_formats" and d: "parse_with_format now date_str fmt = Inr d"
      and r: "r = strftime_ymd d" by blast
  have ny: "\<not> py_in ''%Y'' fmt"
  proof
    assume y: "py_in ''%Y'' fmt"
    with d have "strptime date_str fmt = Inr d" by (simp add: parse_with_format_def)
    moreover from assms(1) fmt y have "isl (strptime date_str fmt)"
      by (simp add: yearless_def list_all_iff)
    ultimately show False by simp
  qed
  from parse_yearless [OF fmt ny d] have "dt_year d = dt_year now"
    "length (str_nat (dt_year now)) = 4" by simp_all
  then show ?thesis by (simp add: r strftime_ymd_def zfill_def)
qed

lemma yearless_3_15: "yearless ''3/15''"
  unfolding yearless_def date_formats_def by code_simp

text \<open>
  Claim C8. A date string without a year is one that no format with a year reads. For
  such a string \<open>validate_and_format_date\<close> parses the string with the current year
  appended, so the year of the date it returns is the current year; with another current
  year the returned year is that other year.
\<close>

theorem yearless_date_takes_current_year:
  assumes "yearless date_str" and "validate_and_format_date now date_str = Some r"
  shows "take 4 r = str_nat (dt_year now) \<and>
    (\<forall>now' r'. validate_and_format_date now' date_str = Some r' \<longrightarrow>
       take 4 r' = str_nat (dt_year now'))"
  using assms validate_yearless by blast

theorem yearless_date_takes_current_year_witness:
  "yearless ''3/15'' \<and> validate_and_format_date example_today ''3/15'' = Some ''2024-03-15'' \<and>
   take 4 ''2024-03-15'' = str_nat (dt_year example_today)"
  using yearless_date_takes_current_year [OF yearless_3_15 march_15_parses] yearless_3_15
    march_15_parses by simp

section \<open>Titles of deadline sentences\<close>

lemma rx_match_prev_free: "prev_free items \<Longrightarrow> rx_match items p s = rx_match items q s"
proof (induction items arbitrary: p q s)
  case Nil
  then show ?case by simp
next
  case (Cons item items)
  show ?case
  proof (cases item)
    case (Chr c)
    with Cons show ?thesis by (auto split: list.splits)
  next
    case (Cls P)
    with Cons show ?thesis by (auto split: list.splits)
  next
    case (Rep P lo hi greedy)
    have "rx_match items (char_before p s k) (drop k s) = rx_match items (char_before q s k) (drop k s)"
      for k using Cons Rep by auto
    with Rep show ?thesis by (simp add: Let_def)
  next
    case Bol
    with Cons.prems show ?thesis by simp
  next
    case Wordb
    with Cons.prems show ?thesis by simp
  qed
qed

lemma prev_free_append: "prev_free (xs @ ys) = (prev_free xs \<and> prev_free ys)"
  by (induction xs rule: prev_free.induct) simp_all

lemma prev_free_Chr: "prev_free (map Chr word)"
  by (induction word) simp_all

lemma rx_match_word:
  "rx_match (map Chr word @ items) p s =
     (if ci_starts word s then rx_match items (char_before p s (length word)) (drop (length word) s)
      else None)"
proof (induction word arbitrary: p s)
  case Nil
  then show ?case by (simp add: ci_starts_def char_before_def)
next
  case (Cons c word)
  show ?case
  proof (cases s)
    case Nil
    then show ?thesis by (simp add: ci_starts_def)
  next
    case (Cons x xs)
    have "char_before (Some x) xs (length word) = char_before p (x # xs) (Suc (length word))"
      by (cases "length word") (simp_all add: char_before_def)
    with Cons Cons.IH [of "Some x" xs] show ?thesis by (auto simp: ci_starts_def)
  qed
qed

lemma first_some_greedy:
  "f n \<noteq> None \<Longrightarrow> first_some (map f (rev [lo..<Suc n])) = (if lo \<le> n then f n else None)"
  by (cases "f n") auto

lemma rx_match_spaces_end:
  "rx_match [Rep is_space 0 None True] p s = Some (dropWhile is_space s)"
proof -
  let ?n = "length (takeWhile is_space s)"
  have "drop ?n s = dropWhile is_space s" by (simp add: dropWhile_eq_drop)
  then show ?thesis by (simp add: Let_def first_some_greedy del: upt_Suc)
qed

lemma rx_match_label_end:
  "rx_match [Rep ((=) CHR '':'') 0 (Some 1) True, Rep is_space 0 None True] p s = Some (after_label s)"
proof (cases s)
  case Nil
  then show ?thesis by (simp add: after_label_def Let_def)
next
  case (Cons c cs)
  show ?thesis
  proof (cases "c = CHR '':''")
    case True
    have "min 1 (length (takeWhile ((=) CHR '':'') s)) = 1" using Cons True by simp
    then have "rx_match [Rep ((=) CHR '':'') 0 (Some 1) True, Rep is_space 0 None True] p s =
        first_some (map (\<lambda>k. rx_match [Rep is_space 0 None True] (char_before p s k) (drop k s)) (rev [0..<Suc 1]))"
      by (simp only: rx_match.simps Let_def option.case if_True)
    also have "\<dots> = rx_match [Rep is_space 0 None True] (char_before p s 1) (drop 1 s)"
      by (subst first_some_greedy) (simp_all only: rx_match_spaces_end, simp_all)
    finally show ?thesis using Cons True
      by (simp add: rx_match_spaces_end after_label_def del: rx_match.simps)
  next
    case False
    have "min 1 (length (takeWhile ((=) CHR '':'') s)) = 0" using Cons False by simp
    then have "rx_match [Rep ((=) CHR '':'') 0 (Some 1) True, Rep is_space 0 None True] p s =
        first_some (map (\<lambda>k. rx_match [Rep is_space 0 None True] (char_before p s k) (drop k s)) (rev [0..<Suc 0]))"
      by (simp only: rx_match.simps Let_def option.case if_True)
    also have "\<dots> = rx_match [Rep is_space 0 None True] (char_before p s 0) (drop 0 s)"
      by (subst first_some_greedy) (simp_all only: rx_match_spaces_end, simp_all)
    finally show ?thesis using Cons False
      by (simp add: rx_match_spaces_end after_label_def del: rx_match.simps)
  qed
qed

lemma rx_match_label:
  "rx_match (map Chr word @ [Rep ((=) CHR '':'') 0 (Some 1) True, Rep is_space 0 None True]) p s =
     (if ci_starts word s then Some (after_label (drop (length word) s)) else None)"
  by (simp only: rx_match_word rx_match_label_end)

lemma lazy_scan:
  assumes "word \<noteq> []"
  shows "first_some (map (\<lambda>k. if ci_starts word (drop k t)
            then Some (after_label (drop (length word) (drop k t))) else None)
          [0..<Suc (length (takeWhile rx_dot t))]) =
         map_option after_label (find_word word t)"
proof (induction t)
  case Nil
  from assms show ?case by (simp add: ci_starts_def)
next
  case (Cons c cs)
  let ?g = "\<lambda>t k. if ci_starts word (drop k t)
            then Some (after_label (drop (length word) (drop k t))) else None"
  let ?n = "length (takeWhile rx_dot (c # cs))"
  have upt: "[0..<Suc ?n] = 0 # map Suc [0..<?n]"
    by (simp only: upt_conv_Cons zero_less_Suc map_Suc_upt)
  have shift: "map (?g (c # cs)) (map Suc [0..<?n]) = map (?g cs) [0..<?n]"
    by (simp del: upt_Suc)
  have split: "first_some (map (?g (c # cs)) [0..<Suc ?n]) =
      first_some (?g (c # cs) 0 # map (?g cs) [0..<?n])"
    by (simp only: upt list.map shift)
  show ?case
  proof (cases "ci_starts word (c # cs)")
    case True
    then show ?thesis unfolding split by simp
  next
    case False
    then have skip: "first_some (map (?g (c # cs)) [0..<Suc ?n]) = first_some (map (?g cs) [0..<?n])"
      unfolding split by simp
    show ?thesis
    proof (cases "rx_dot c")
      case True
      then have n: "?n = Suc (length (takeWhile rx_dot cs))" by simp
      have "first_some (map (?g cs) [0..<?n]) = map_option after_label (find_word word cs)"
        unfolding n by (rule Cons.IH)
      with skip have "first_some (map (?g (c # cs)) [0..<Suc ?n]) =
          map_option after_label (find_word word cs)" by simp
      moreover have "find_word word (c # cs) = find_word word cs"
        using False True by (simp add: rx_dot_def)
      ultimately show ?thesis by simp
    next
      case nl: False
      then have n: "?n = 0" by simp
      have "first_some (map (?g cs) [0..<?n]) = None" unfolding n by simp
      with skip have "first_some (map (?g (c # cs)) [0..<Suc ?n]) = None" by simp
      moreover have "find_word word (c # cs) = None"
        using False nl by (simp add: rx_dot_def)
      ultimately show ?thesis by simp
    qed
  qed
qed

lemma rx_match_prefix_pattern:
  assumes "word \<noteq> []"
  shows "rx_match (prefix_pattern word) None t = map_option after_label (find_word word t)"
proof -
  let ?w = "map Chr word @ [Rep ((=) CHR '':'') 0 (Some 1) True, Rep is_space 0 None True]"
  have "rx_match (prefix_pattern word) None t = rx_match (Rep rx_dot 0 None False # ?w) None t"
    by (simp add: prefix_pattern_def del: rx_match.simps(4))
  also have "\<dots> = first_some (map (\<lambda>k. rx_match ?w (char_before None t k) (drop k t))
      [0..<Suc (length (takeWhile rx_dot t))])"
    by (simp only: rx_match.simps Let_def option.case if_False)
  also have "\<dots> = map_option after_label (find_word word t)"
    unfolding rx_match_label by (rule lazy_scan [OF assms])
  finally show ?thesis .
qed

lemma rx_sub_after_start: "rx_sub (Bol # items) repl (Some c) s = s"
proof (induction s arbitrary: c)
  case Nil
  show ?case by (subst rx_sub.simps) simp
next
  case (Cons x xs)
  have "rx_sub (Bol # items) repl (Some x) xs = xs" by (rule Cons.IH)
  then show ?case by (subst rx_sub.simps) simp
qed

lemma find_word_length:
  "find_word word t = Some r \<Longrightarrow> length r + length word \<le> length t \<and> suffix r t"
proof (induction t)
  case Nil
  then show ?case by (simp split: if_splits)
next
  case (Cons c cs)
  show ?case
  proof (cases "ci_starts word (c # cs)")
    case True
    with Cons.prems have "r = drop (length word) (c # cs)" by simp
    with True show ?thesis by (simp add: ci_starts_def suffix_drop)
  next
    case False
    with Cons.prems have "find_word word cs = Some r" by (simp split: if_splits)
    from Cons.IH [OF this] show ?thesis by (simp add: suffix_Cons)
  qed
qed

lemma after_label_suffix: "suffix (after_label r) r"
proof -
  have "suffix (dropWhile is_space x) x" for x by (rule suffix_dropWhile)
  moreover have "suffix (case r of [] \<Rightarrow> [] | c # r' \<Rightarrow> if c = CHR '':'' then r' else r) r"
    by (auto split: list.splits simp: suffix_Cons)
  ultimately show ?thesis unfolding after_label_def by (blast intro: suffix_order.trans)
qed

lemma re_sub_prefix_pattern:
  assumes "word \<noteq> []"
  shows "re_sub (prefix_pattern word) [] t = cut_through word t"
proof (cases "find_word word t")
  case None
  then have m: "rx_match (prefix_pattern word) None t = None"
    by (simp add: rx_match_prefix_pattern [OF assms])
  have pat: "prefix_pattern word = Bol # tl (prefix_pattern word)" by (simp add: prefix_pattern_def)
  have "rx_sub (prefix_pattern word) [] None t = t"
  proof (cases t)
    case Nil
    with m show ?thesis by (subst rx_sub.simps) simp
  next
    case (Cons x xs)
    have "rx_sub (prefix_pattern word) [] (Some x) xs = xs"
      by (subst pat) (simp add: rx_sub_after_start)
    with m Cons show ?thesis by (subst rx_sub.simps) simp
  qed
  with None show ?thesis by (simp add: re_sub_def cut_through_def)
next
  case (Some r)
  then have m: "rx_match (prefix_pattern word) None t = Some (after_label r)"
    by (simp add: rx_match_prefix_pattern [OF assms])
  from find_word_length [OF Some] assms have "length r < length t" by (cases word) auto
  moreover have "length (after_label r) \<le> length r"
    using after_label_suffix [of r] by (rule suffix_length_le)
  ultimately have len: "length (after_label r) < length t" by simp
  have pat: "prefix_pattern word = Bol # tl (prefix_pattern word)" by (simp add: prefix_pattern_def)
  obtain c where "char_before None t (length t - length (after_label r)) = Some c"
    using len by (simp add: char_before_def)
  then have "rx_sub (prefix_pattern word) [] (char_before None t (length t - length (after_label r)))
      (after_label r) = after_label r"
    by (subst pat) (simp add: rx_sub_after_start)
  with m len have "rx_sub (prefix_pattern word) [] None t = after_label r"
    by (subst rx_sub.simps) simp
  with Some show ?thesis by (simp add: re_sub_def cut_through_def)
qed

lemma cut_through_suffix: "suffix (cut_through word t) t"
proof (cases "find_word word t")
  case None
  then show ?thesis by (simp add: cut_through_def)
next
  case (Some r)
  from find_word_length [OF Some] after_label_suffix [of r] have "suffix (after_label r) t"
    by (blast intro: suffix_order.trans)
  with Some show ?thesis by (simp add: cut_through_def)
qed

lemma fold_cut_through_suffix: "suffix (fold cut_through ws t) t"
proof (induction ws arbitrary: t)
  case Nil
  then show ?case by simp
next
  case (Cons w ws)
  from Cons.IH [of "cut_through w t"] cut_through_suffix [of w t] show ?case
    by (auto intro: suffix_order.trans)
qed

lemma fold_cut_through_absent:
  "list_all (\<lambda>word. find_word word t = None) ws \<Longrightarrow> fold cut_through ws t = t"
  by (induction ws) (simp_all add: cut_through_def)

lemma fold_re_sub_prefixes:
  "\<forall>w \<in> set ws. w \<noteq> [] \<Longrightarrow>
   fold (\<lambda>prefix title. re_sub prefix [] title) (map prefix_pattern ws) t = fold cut_through ws t"
  by (induction ws arbitrary: t) (simp_all add: re_sub_prefix_pattern)

lemma extract_deadline_title_eq:
  "extract_deadline_title sentence = title_cleanup (fold cut_through label_words (py_strip sentence))"
proof -
  have "fold (\<lambda>prefix title. re_sub prefix [] title) prefixes_to_remove (py_strip sentence) =
      fold cut_through label_words (py_strip sentence)"
    unfolding prefixes_to_remove_def label_words_def by (rule fold_re_sub_prefixes) simp
  then show ?thesis by (simp add: extract_deadline_title_def title_cleanup_def Let_def)
qed

text \<open>
  Against claim C1 as stated: the first pattern, \<open>^.*?due:?\\s*\<close>, removes everything
  through the word \<open>due\<close>, and the title of the sentence is \<open>Friday\<close>.
\<close>

theorem title_of_assignment_sentence:
  "extract_deadline_title ''Assignment: Essay on climate change due Friday'' = ''Friday''"
  by code_simp

lemma no_label_word_example:
  "list_all (\<lambda>word. find_word word (py_strip ''Read chapter 3'') = None) label_words"
  by code_simp

text \<open>
  Claim C1, as the code has it. For every sentence the seven patterns are applied one
  after the other to the stripped sentence. Each removes the text from the start of the
  title through the first occurrence of its word on the first line, in any case and
  wherever it stands, with a colon after it and the whitespace that follows, and leaves
  the title as it is when the word does not occur. What remains is a suffix of the
  stripped sentence, and the whole stripped sentence when none of the seven words occurs;
  it is then cleaned of whitespace runs and capped.
\<close>

theorem extract_deadline_title_cuts_through_words:
  "extract_deadline_title sentence =
     title_cleanup (fold cut_through label_words (py_strip sentence)) \<and>
   suffix (fold cut_through label_words (py_strip sentence)) (py_strip sentence) \<and>
   (list_all (\<lambda>word. find_word word (py_strip sentence) = None) label_words \<longrightarrow>
      fold cut_through label_words (py_strip sentence) = py_strip sentence) \<and>
   list_all (\<lambda>word. re_sub (prefix_pattern word) [] title = cut_through word title) label_words"
proof (intro conjI impI)
  show "extract_deadline_title sentence =
     title_cleanup (fold cut_through label_words (py_strip sentence))"
    by (rule extract_deadline_title_eq)
  show "suffix (fold cut_through label_words (py_strip sentence)) (py_strip sentence)"
    by (rule fold_cut_through_suffix)
  show "list_all (\<lambda>word. re_sub (prefix_pattern word) [] title = cut_through word title) label_words"
    by (simp add: label_words_def re_sub_prefix_pattern)
next
  assume "list_all (\<lambda>word. find_word word (py_strip sentence) = None) label_words"
  then show "fold cut_through label_words (py_strip sentence) = py_strip sentence"
    by (rule fold_cut_through_absent)
qed

theorem extract_deadline_title_cuts_through_words_witness:
  "list_all (\<lambda>word. find_word word (py_strip ''Read chapter 3'') = None) label_words \<and>
   fold cut_through label_words (py_strip ''Read chapter 3'') = py_strip ''Read chapter 3'' \<and>
   extract_deadline_title ''Read chapter 3'' = title_cleanup (py_strip ''Read chapter 3'')"
  using extract_deadline_title_cuts_through_words [of "''Read chapter 3''"] no_label_word_example
  by simp

section \<open>Dates found in a text\<close>

lemma matches_two_spellings:
  "concat (map (\<lambda>pattern. re_findall pattern ''03/15/2024 3/15/2024'') date_patterns) =
     [''03/15/2024'', ''3/15/2024'', ''2024 3'']"
  by code_simp

lemma matches_one_spelling_twice:
  "concat (map (\<lambda>pattern. re_findall pattern ''03/15/2024 03/15/2024'') date_patterns) =
     [''03/15/2024'', ''03/15/2024'', ''2024 03'']"
  by code_simp

lemma validate_03_15_2024: "validate_and_format_date example_today ''03/15/2024'' = Some ''2024-03-15''"
  unfolding validate_and_format_date_def date_formats_def try_date_formats.simps parse_example_today
  by code_simp

lemma validate_3_15_2024: "validate_and_format_date example_today ''3/15/2024'' = Some ''2024-03-15''"
  unfolding validate_and_format_date_def date_formats_def try_date_formats.simps parse_example_today
  by code_simp

lemma validate_2024_3: "validate_and_format_date example_today ''2024 3'' = None"
  unfolding validate_and_format_date_def date_formats_def try_date_formats.simps parse_example_today
  by code_simp

lemma validate_2024_03: "validate_and_format_date example_today ''2024 03'' = None"
  unfolding validate_and_format_date_def date_formats_def try_date_formats.simps parse_example_today
  by code_simp

lemma matches_one_mention:
  "concat (map (\<lambda>pattern. re_findall pattern ''Exam on March 15, 2024'') date_patterns) =
     [''March 15, 2024'', ''March 15'']"
  by code_simp

lemma validate_march_15_2024:
  "validate_and_format_date example_today ''March 15, 2024'' = Some ''2024-03-15''"
  unfolding validate_and_format_date_def date_formats_def try_date_formats.simps parse_example_today
  by code_simp

lemma validate_march_15:
  "validate_and_format_date example_today ''March 15'' = Some ''2024-03-15''"
  unfolding validate_and_format_date_def date_formats_def try_date_formats.simps parse_example_today
  by code_simp

text \<open>
  Claim C7 at concrete inputs. A text that writes one day in two ways, \<open>03/15/2024\<close> and
  \<open>3/15/2024\<close>, gives two different matched texts; the duplicates are removed among the
  matched texts, before they are normalized, so the same canonical date is returned
  twice. The same spelling twice is matched twice and returned once. A single mention
  \<open>March 15, 2024\<close> is matched by the pattern with a year and, up to the day, by the
  pattern without one; in 2024 both texts normalize to the same date.
\<close>

theorem extract_dates_repeats_a_date:
  "extract_dates example_today ''03/15/2024 3/15/2024'' = [''2024-03-15'', ''2024-03-15''] \<and>
   extract_dates example_today ''03/15/2024 03/15/2024'' = [''2024-03-15''] \<and>
   extract_dates example_today ''Exam on March 15, 2024'' = [''2024-03-15'', ''2024-03-15'']"
proof (intro conjI)
  show "extract_dates example_today ''03/15/2024 3/15/2024'' = [''2024-03-15'', ''2024-03-15'']"
    unfolding extract_dates_def Let_def matches_two_spellings
    by (simp add: validate_03_15_2024 validate_3_15_2024 validate_2024_3)
  show "extract_dates example_today ''03/15/2024 03/15/2024'' = [''2024-03-15'']"
    unfolding extract_dates_def Let_def matches_one_spelling_twice
    by (simp add: validate_03_15_2024 validate_2024_03)
  show "extract_dates example_today ''Exam on March 15, 2024'' = [''2024-03-15'', ''2024-03-15'']"
    unfolding extract_dates_def Let_def matches_one_mention
    by (simp add: validate_march_15_2024 validate_march_15)
qed

section \<open>The study-session generator and the sleep preference\<close>

text \<open>
  Claim C10. The study sessions do not depend on the sleep preference: for every wakeup
  hour, study style and weekday, any two sleep hours give the same list of sessions.
\<close>

theorem generate_study_sessions_sleep_independent:
  "generate_study_sessions wakeup sleep1 study_style day_of_week =
   generate_study_sessions wakeup sleep2 study_style day_of_week"
  by (simp add: generate_study_sessions_def Let_def)

end
